theory Spec2Isabelle
  imports Complex_Main
begin

section \<open>Values, exceptions and the environment\<close>

text \<open>
  The client of \<^verbatim>\<open>instagram_web_api.py\<close> works on decoded JSON documents. A JSON
  document is a Python value; \<open>JNull\<close> is Python's \<^verbatim>\<open>None\<close> and an object is a dict,
  kept as an association list read with \<open>map_of\<close>. JSON floating-point numbers are left
  out: no modelled function reads one.
\<close>

datatype json =
    JNull
  | JBool bool
  | JNum int
  | JStr string
  | JArr "json list"
  | JObj "(string \<times> json) list"

text \<open>The exceptions the modelled code can meet.\<close>

datatype exn =
    HTTPError nat
  | RequestFailed
  | JSONDecodeError
  | AttributeError
  | TypeError
  | ValueError
  | CookieConflictError
  | FileNotFoundError
  | OSError

text \<open>
  What the platform answers to one request: no answer at all (the HTTP library raises a
  connection error or a timeout), or a status code with a body that decodes as JSON
  (\<open>Some\<close>) or does not (\<open>None\<close>).
\<close>

datatype reply = Failed | Reply nat "json option"

text \<open>An f-string: literal text and formatted values, in order.\<close>

datatype piece = Lit string | Fmt json

type_synonym fstr = "piece list"

datatype surface = Feed | FeedVideo | Story | StoryVideo | Clips

record video_info =
  duration :: real
  duration_ms :: int
  width :: int
  height :: int

text \<open>
  The requests the client sends. Of a request's payload the model keeps the fields the
  properties below speak about: the endpoint, the query parameters of a page fetch, the
  upload id, the probed video data and the surface flags.
\<close>

datatype request =
    ApiGet fstr "(string \<times> json) list"
  | ApiPost fstr
  | WebPost fstr
  | ProbeGet
  | GraphqlGet string string
  | RuploadVideoInit string video_info bool bool
  | RuploadVideoPost string video_info bool bool
  | RuploadPhoto string string
  | Configure surface string string

text \<open>
  What happens, in order: a request (with the \<^verbatim>\<open>X-CSRFToken\<close> header it carries), a
  \<^verbatim>\<open>time.sleep\<close> of whole seconds, a random delay between two bounds in milliseconds,
  an action recorded by the rate limiter.
\<close>

datatype event =
    Net request "json option"
  | Sleep nat
  | Delay nat nat
  | Recorded string

datatype level = Info | Warning | Error

text \<open>
  A cookie of the jar. Its value is a string when the platform set it; a session snapshot
  can restore any JSON value.
\<close>

datatype cookie = Cookie (c_domain: string) (c_path: string) (c_name: string) (c_value: json)

datatype fentry = Absent | Unreadable | Raw | Parsed json

datatype probe = ProbeUnavailable | ProbeError | Probed real int int

datatype ffmpeg_out = FfRaises | FfNothing | FfWrote

text \<open>
  The client object (\<^verbatim>\<open>InstagramWebAPI\<close>) together with the world it acts on. The
  cookie jar is the sequence of cookies its iterator yields. \<open>net\<close> gives the platform's
  answer to the n-th request sent (counted from 0); \<open>fs\<close> is the file system, \<open>ffprobe\<close>
  and \<open>ffmpeg\<close> the external tools, \<open>rate\<close> the rate limiter's hourly windows.
  \<open>user_id\<close>, \<open>username\<close> and \<open>csrf_token\<close> hold whatever JSON value a session
  snapshot gave them.
\<close>

record state =
  cookies :: "cookie list"
  csrf_header :: "json option"
  csrf_token :: json
  user_id :: json
  username :: json
  is_authenticated :: bool
  net :: "nat \<Rightarrow> reply"
  trace :: "event list"
  logs :: "(level \<times> string) list"
  fs :: "string \<Rightarrow> fentry"
  ffprobe :: "string \<Rightarrow> probe"
  ffmpeg :: "string \<Rightarrow> string \<Rightarrow> ffmpeg_out"
  rate :: "string \<Rightarrow> nat \<times> nat"

subsection \<open>Computations that change the state and may raise\<close>

type_synonym 'a io = "state \<Rightarrow> (exn + 'a) \<times> state"

definition io_ret :: "'a \<Rightarrow> 'a io" where
  "io_ret x s = (Inr x, s)"

definition io_raise :: "exn \<Rightarrow> 'a io" where
  "io_raise e s = (Inl e, s)"

definition io_bind :: "'a io \<Rightarrow> ('a \<Rightarrow> 'b io) \<Rightarrow> 'b io" where
  "io_bind m k s = (case m s of (Inl e, s') \<Rightarrow> (Inl e, s') | (Inr x, s') \<Rightarrow> k x s')"

text \<open>\<^verbatim>\<open>try: m  except Exception as e: h(e)\<close>\<close>

definition io_try :: "'a io \<Rightarrow> (exn \<Rightarrow> 'a io) \<Rightarrow> 'a io" where
  "io_try m h s = (case m s of (Inl e, s') \<Rightarrow> h e s' | (Inr x, s') \<Rightarrow> (Inr x, s'))"

definition lift :: "exn + 'a \<Rightarrow> 'a io" where
  "lift r s = (r, s)"

definition emit :: "event \<Rightarrow> unit io" where
  "emit e s = (Inr (), s\<lparr>trace := trace s @ [e]\<rparr>)"

definition log :: "level \<Rightarrow> string \<Rightarrow> unit io" where
  "log l m s = (Inr (), s\<lparr>logs := logs s @ [(l, m)]\<rparr>)"

fun is_net :: "event \<Rightarrow> bool" where
  "is_net (Net _ _) = True"
| "is_net _ = False"

definition nreq :: "event list \<Rightarrow> nat" where
  "nreq es = length (filter is_net es)"

text \<open>
  One request through \<^verbatim>\<open>self.session\<close>: it is written to the trace with the CSRF header
  of the moment, and the platform's answer to it is read from \<open>net\<close>. A connection
  failure is the HTTP library's exception.
\<close>

definition http :: "request \<Rightarrow> (nat \<times> json option) io" where
  "http rq s =
     (let s' = s\<lparr>trace := trace s @ [Net rq (csrf_header s)]\<rparr>
      in case net s (nreq (trace s)) of
           Failed \<Rightarrow> (Inl RequestFailed, s')
         | Reply code body \<Rightarrow> (Inr (code, body), s'))"

text \<open>\<^verbatim>\<open>r.raise_for_status()\<close> raises for the 4xx and 5xx codes.\<close>

definition is_http_error :: "nat \<Rightarrow> bool" where
  "is_http_error code = (400 \<le> code \<and> code < 600)"

text \<open>\<^verbatim>\<open>r.json()\<close>\<close>

definition r_json :: "json option \<Rightarrow> json io" where
  "r_json body = (case body of None \<Rightarrow> io_raise JSONDecodeError | Some j \<Rightarrow> io_ret j)"

subsection \<open>Python's dict and truth-value operations on JSON values\<close>

fun truthy :: "json \<Rightarrow> bool" where
  "truthy JNull = False"
| "truthy (JBool b) = b"
| "truthy (JNum n) = (n \<noteq> 0)"
| "truthy (JStr s) = (s \<noteq> [])"
| "truthy (JArr xs) = (xs \<noteq> [])"
| "truthy (JObj kvs) = (kvs \<noteq> [])"

text \<open>\<^verbatim>\<open>d.get(k, default)\<close>: only a dict has \<^verbatim>\<open>get\<close>.\<close>

fun py_get :: "json \<Rightarrow> string \<Rightarrow> json \<Rightarrow> exn + json" where
  "py_get (JObj kvs) k d = Inr (case map_of kvs k of None \<Rightarrow> d | Some v \<Rightarrow> v)"
| "py_get _ k d = Inl AttributeError"

section \<open>CSRF and request helpers\<close>

definition is_csrf :: "cookie \<Rightarrow> bool" where
  "is_csrf c = (c_name c = ''csrftoken'')"

text \<open>
  \<^verbatim>\<open>cookies.clear(domain, path, name)\<close> drops the cookie stored under that key. A jar
  holds one cookie per key, and \<^verbatim>\<open>_refresh_csrf\<close> clears keys it has just read from the
  jar, so the \<^verbatim>\<open>KeyError\<close> of an unknown key does not arise there.
\<close>

definition same_key :: "cookie \<Rightarrow> cookie \<Rightarrow> bool" where
  "same_key x c = (c_domain x = c_domain c \<and> c_path x = c_path c \<and> c_name x = c_name c)"

definition jar_clear :: "cookie \<Rightarrow> cookie list \<Rightarrow> cookie list" where
  "jar_clear c jar = filter (\<lambda>x. \<not> same_key x c) jar"

text \<open>
  \<^verbatim>\<open>cookies.get(name, default)\<close>: the value of the one cookie of that name, the default
  when there is none or its value is falsy, \<^verbatim>\<open>CookieConflictError\<close> when several
  cookies have the name.
\<close>

definition jar_get :: "string \<Rightarrow> json \<Rightarrow> cookie list \<Rightarrow> exn + json" where
  "jar_get n d jar =
     (case filter (\<lambda>c. c_name c = n) jar of
        [] \<Rightarrow> Inr d
      | [c] \<Rightarrow> Inr (if truthy (c_value c) then c_value c else d)
      | _ \<Rightarrow> Inl CookieConflictError)"

text \<open>The first lines of \<^verbatim>\<open>_refresh_csrf\<close>: of several CSRF cookies the last stays.\<close>

definition dedupe_csrf :: "cookie list \<Rightarrow> cookie list" where
  "dedupe_csrf jar =
     (let csrf_cookies = filter is_csrf jar
      in if length csrf_cookies > 1
         then fold jar_clear (butlast csrf_cookies) jar
         else jar)"

text \<open>
  \<^verbatim>\<open>set_cookie\<close> of the HTTP library's jar, which \<^verbatim>\<open>requests\<close> calls for every cookie
  of a response. The jar is a dict of domains, each a dict of paths, each a dict of
  names, and its iterator walks them in the order of first insertion: a cookie set again
  under its key keeps its place, a new name follows the cookies of its domain and path, a
  new path those of its domain, a new domain comes last. This is the jar from which
  nothing has been cleared.
\<close>

definition insert_after :: "(cookie \<Rightarrow> bool) \<Rightarrow> cookie \<Rightarrow> cookie list \<Rightarrow> cookie list" where
  "insert_after P c jar =
     (let n = length (dropWhile (\<lambda>x. \<not> P x) (rev jar)) in take n jar @ [c] @ drop n jar)"

definition jar_set_cookie :: "cookie \<Rightarrow> cookie list \<Rightarrow> cookie list" where
  "jar_set_cookie c jar =
     (if \<exists>x \<in> set jar. same_key x c
      then map (\<lambda>x. if same_key x c then c else x) jar
      else if \<exists>x \<in> set jar. c_domain x = c_domain c \<and> c_path x = c_path c
      then insert_after (\<lambda>x. c_domain x = c_domain c \<and> c_path x = c_path c) c jar
      else if \<exists>x \<in> set jar. c_domain x = c_domain c
      then insert_after (\<lambda>x. c_domain x = c_domain c) c jar
      else jar @ [c])"

definition refresh_csrf :: "unit io" where
  "refresh_csrf s =
     (let s1 = s\<lparr>cookies := dedupe_csrf (cookies s)\<rparr>
      in case jar_get ''csrftoken'' (JStr []) (cookies s1) of
           Inl e \<Rightarrow> (Inl e, s1)
         | Inr csrf \<Rightarrow>
             if truthy csrf
             then (Inr (), s1\<lparr>csrf_token := csrf, csrf_header := Some csrf\<rparr>)
             else (Inr (), s1))"

text \<open>
  \<^verbatim>\<open>_set_ajax_headers\<close>: the CSRF refresh; the four constant AJAX headers it sets are
  not part of the state.
\<close>

definition set_ajax_headers :: "unit io" where
  "set_ajax_headers = refresh_csrf"

text \<open>
  \<^verbatim>\<open>_api_get\<close>: the loop \<^verbatim>\<open>for attempt in range(retries + 1)\<close>, with the number of
  iterations still to run as the first argument. A loop that runs out without returning
  makes the function return \<^verbatim>\<open>None\<close>.
\<close>

primrec api_get_loop :: "nat \<Rightarrow> fstr \<Rightarrow> (string \<times> json) list \<Rightarrow> int \<Rightarrow> nat \<Rightarrow> json io" where
  "api_get_loop 0 ep ps retries attempt = io_ret JNull"
| "api_get_loop (Suc n) ep ps retries attempt =
     io_bind (emit (Delay 500 1500)) (\<lambda>_.
     io_bind (io_try (http (ApiGet ep ps))
                (\<lambda>e. io_bind (log Error ''API GET'') (\<lambda>_. io_raise e))) (\<lambda>(code, body).
       if is_http_error code then
         io_bind (log Error ''API GET: HTTP'') (\<lambda>_.
           if code = 429 \<and> int attempt < retries then
             io_bind (log Warning ''Rate limit (429)'') (\<lambda>_.
             io_bind (emit (Sleep (30 * (attempt + 1)))) (\<lambda>_.
               api_get_loop n ep ps retries (attempt + 1)))
           else io_raise (HTTPError code))
       else
         io_try (r_json body)
           (\<lambda>e. io_bind (log Error ''API GET'') (\<lambda>_. io_raise e))))"

definition api_get :: "fstr \<Rightarrow> (string \<times> json) list \<Rightarrow> int \<Rightarrow> json io" where
  "api_get ep ps retries =
     io_bind refresh_csrf (\<lambda>_. api_get_loop (nat (retries + 1)) ep ps retries 0)"

primrec api_post_loop :: "nat \<Rightarrow> fstr \<Rightarrow> int \<Rightarrow> nat \<Rightarrow> json io" where
  "api_post_loop 0 ep retries attempt = io_ret JNull"
| "api_post_loop (Suc n) ep retries attempt =
     io_bind (emit (Delay 500 1500)) (\<lambda>_.
     io_bind (io_try (http (ApiPost ep))
                (\<lambda>e. io_bind (log Error ''API POST'') (\<lambda>_. io_raise e))) (\<lambda>(code, body).
       if is_http_error code then
         io_bind (log Error ''API POST: HTTP'') (\<lambda>_.
           if code = 429 \<and> int attempt < retries then
             io_bind (log Warning ''Rate limit (429)'') (\<lambda>_.
             io_bind (emit (Sleep (30 * (attempt + 1)))) (\<lambda>_.
               api_post_loop n ep retries (attempt + 1)))
           else io_raise (HTTPError code))
       else
         io_try (r_json body)
           (\<lambda>e. io_bind (log Error ''API POST'') (\<lambda>_. io_raise e))))"

definition api_post :: "fstr \<Rightarrow> int \<Rightarrow> json io" where
  "api_post ep retries =
     io_bind refresh_csrf (\<lambda>_. api_post_loop (nat (retries + 1)) ep retries 0)"

text \<open>\<^verbatim>\<open>_web_post\<close>: one request; every exception is logged and raised again.\<close>

definition web_post :: "fstr \<Rightarrow> json io" where
  "web_post path =
     io_bind refresh_csrf (\<lambda>_.
     io_try
       (io_bind (http (WebPost path)) (\<lambda>(code, body).
          if is_http_error code then io_raise (HTTPError code) else r_json body))
       (\<lambda>e. io_bind (log Error ''WEB POST'') (\<lambda>_. io_raise e)))"

section \<open>Persistent session\<close>

text \<open>\<^verbatim>\<open>with open(filepath) as f: data = json.load(f)\<close>\<close>

definition read_json :: "string \<Rightarrow> json io" where
  "read_json p s =
     (case fs s p of
        Absent \<Rightarrow> (Inl FileNotFoundError, s)
      | Unreadable \<Rightarrow> (Inl OSError, s)
      | Raw \<Rightarrow> (Inl JSONDecodeError, s)
      | Parsed j \<Rightarrow> (Inr j, s))"

text \<open>
  A dict's \<^verbatim>\<open>items()\<close>: in an association list the first entry of a key is the key's
  value, later entries of the key are not part of the dict.
\<close>

fun dict_items :: "(string \<times> json) list \<Rightarrow> (string \<times> json) list" where
  "dict_items [] = []"
| "dict_items ((k, v) # kvs) = (k, v) # dict_items (filter (\<lambda>kv. fst kv \<noteq> k) kvs)"

text \<open>
  \<^verbatim>\<open>cookies.set(name, value)\<close> on the jar \<^verbatim>\<open>load_session\<close> has just emptied: every
  cookie gets the default domain and path. A \<^verbatim>\<open>None\<close> value removes the cookies of
  that name instead.
\<close>

definition jar_set :: "string \<Rightarrow> json \<Rightarrow> cookie list \<Rightarrow> cookie list" where
  "jar_set n v jar =
     (if v = JNull then filter (\<lambda>c. c_name c \<noteq> n) jar
      else if \<exists>c \<in> set jar. same_key c (Cookie [] ''/'' n v)
      then map (\<lambda>c. if same_key c (Cookie [] ''/'' n v) then Cookie [] ''/'' n v else c) jar
      else jar @ [Cookie [] ''/'' n v])"

text \<open>\<^verbatim>\<open>data.get("cookies", {}).items()\<close>: only a dict has \<^verbatim>\<open>items\<close>.\<close>

fun py_items :: "json \<Rightarrow> exn + (string \<times> json) list" where
  "py_items (JObj kvs) = Inr (dict_items kvs)"
| "py_items _ = Inl AttributeError"

definition verify_session :: "bool io" where
  "verify_session =
     io_try
       (io_bind (http ProbeGet) (\<lambda>(code, body).
          if code = 200 then
            io_bind (r_json body) (\<lambda>data.
              case data of
                JObj kvs \<Rightarrow>
                  io_ret (map_of kvs ''status'' = Some (JStr ''ok'') \<or> map_of kvs ''form_data'' \<noteq> None)
              | _ \<Rightarrow> io_raise AttributeError)
          else io_ret False))
       (\<lambda>e. io_ret False)"

definition load_session :: "string \<Rightarrow> bool io" where
  "load_session filepath s =
     (if fs s filepath = Absent then (Inr False, s)
      else
        io_try
          (io_bind (read_json filepath) (\<lambda>data.
           io_bind (\<lambda>s. (Inr (), s\<lparr>cookies := []\<rparr>)) (\<lambda>_.
           io_bind (lift (py_get data ''cookies'' (JObj []))) (\<lambda>cj.
           io_bind (lift (py_items cj)) (\<lambda>items.
           io_bind (\<lambda>s. (Inr (), s\<lparr>cookies := fold (\<lambda>kv. jar_set (fst kv) (snd kv)) items (cookies s)\<rparr>)) (\<lambda>_.
           io_bind (lift (py_get data ''user_id'' JNull)) (\<lambda>uid.
           io_bind (lift (py_get data ''username'' JNull)) (\<lambda>un.
           io_bind (lift (py_get data ''csrf_token'' (JStr []))) (\<lambda>tok.
           io_bind (\<lambda>s. (Inr (), s\<lparr>user_id := uid, username := un, csrf_token := tok\<rparr>)) (\<lambda>_.
           io_bind set_ajax_headers (\<lambda>_.
           io_bind verify_session (\<lambda>ok.
             if ok then
               io_bind (\<lambda>s. (Inr (), s\<lparr>is_authenticated := True\<rparr>)) (\<lambda>_.
               io_bind (log Info ''Sessao restaurada'') (\<lambda>_. io_ret True))
             else
               io_bind (log Warning ''Sessao expirada'') (\<lambda>_. io_ret False)))))))))))))
          (\<lambda>e. io_bind (log Warning ''Erro ao carregar sessao'') (\<lambda>_. io_ret False)) s)"

section \<open>Write operations\<close>

definition user_follow :: "int \<Rightarrow> bool io" where
  "user_follow uid =
     io_try
       (io_bind (web_post [Lit ''/web/friendships/'', Fmt (JNum uid), Lit ''/follow/'']) (\<lambda>data.
        io_bind (lift (py_get data ''result'' (JStr []))) (\<lambda>result.
        io_bind (lift (py_get data ''status'' (JStr []))) (\<lambda>status.
          if result = JStr ''following'' \<or> status = JStr ''ok'' then io_ret True
          else io_bind (log Warning ''Follow retornou'') (\<lambda>_. io_ret False)))))
       (\<lambda>e. io_bind (log Error ''Erro ao seguir'') (\<lambda>_. io_ret False))"

definition user_unfollow :: "int \<Rightarrow> bool io" where
  "user_unfollow uid =
     io_try
       (io_bind (web_post [Lit ''/web/friendships/'', Fmt (JNum uid), Lit ''/unfollow/'']) (\<lambda>data.
        io_bind (lift (py_get data ''status'' (JStr []))) (\<lambda>status.
          if status = JStr ''ok'' then io_ret True else io_ret False)))
       (\<lambda>e. io_bind (log Error ''Erro ao unfollow'') (\<lambda>_. io_ret False))"

definition media_like :: "json \<Rightarrow> bool io" where
  "media_like media_id =
     io_try
       (io_bind (web_post [Lit ''/web/likes/'', Fmt media_id, Lit ''/like/'']) (\<lambda>data.
        io_bind (lift (py_get data ''status'' JNull)) (\<lambda>status.
          if status = JStr ''ok'' then io_ret True else io_ret False)))
       (\<lambda>e. io_bind (log Error ''Erro ao curtir'') (\<lambda>_. io_ret False))"

definition media_unlike :: "json \<Rightarrow> bool io" where
  "media_unlike media_id =
     io_try
       (io_bind (web_post [Lit ''/web/likes/'', Fmt media_id, Lit ''/unlike/'']) (\<lambda>data.
        io_bind (lift (py_get data ''status'' JNull)) (\<lambda>status.
          io_ret (status = JStr ''ok''))))
       (\<lambda>e. io_bind (log Error ''Erro ao descurtir'') (\<lambda>_. io_ret False))"

text \<open>The comment text travels in the form data, which the request of the model leaves out.\<close>

definition media_comment :: "json \<Rightarrow> string \<Rightarrow> bool io" where
  "media_comment media_id text =
     io_try
       (io_bind (web_post [Lit ''/web/comments/'', Fmt media_id, Lit ''/add/'']) (\<lambda>data.
        io_bind (lift (py_get data ''status'' JNull)) (\<lambda>status.
          if status = JStr ''ok'' then io_ret True else io_ret False)))
       (\<lambda>e. io_bind (log Error ''Erro ao comentar'') (\<lambda>_. io_ret False))"

section \<open>Followers and following\<close>

datatype web_user = WebUser (pk: json) (uname: json) (full_name: json)
  (is_private: json) (is_verified: json) (profile_pic_url: json)

definition dget :: "(string \<times> json) list \<Rightarrow> string \<Rightarrow> json \<Rightarrow> json" where
  "dget kvs k d = (case map_of kvs k of None \<Rightarrow> d | Some v \<Rightarrow> v)"

text \<open>
  \<^verbatim>\<open>for u in users\<close>: a list yields its elements, a dict its keys, a string its
  characters; nothing else can be iterated.
\<close>

fun py_iter :: "json \<Rightarrow> exn + json list" where
  "py_iter (JArr xs) = Inr xs"
| "py_iter (JObj kvs) = Inr (map (\<lambda>kv. JStr (fst kv)) (dict_items kvs))"
| "py_iter (JStr cs) = Inr (map (\<lambda>c. JStr [c]) cs)"
| "py_iter _ = Inl TypeError"

text \<open>
  The \<^verbatim>\<open>for\<close> loop that appends one \<^verbatim>\<open>WebUser\<close> per entry of a page. An entry that is
  not a dict has no \<^verbatim>\<open>get\<close>: the loop stops there, and what was appended stays in the
  list. \<open>pic\<close> tells whether the profile picture is read (followers) or not (following).
\<close>

fun append_users :: "bool \<Rightarrow> json list \<Rightarrow> web_user list \<Rightarrow> exn option \<times> web_user list" where
  "append_users pic [] acc = (None, acc)"
| "append_users pic (JObj kvs # us) acc =
     append_users pic us
       (acc @ [WebUser (dget kvs ''pk'' (JNum 0)) (dget kvs ''username'' (JStr []))
                 (dget kvs ''full_name'' (JStr [])) (dget kvs ''is_private'' (JBool False))
                 (dget kvs ''is_verified'' (JBool False))
                 (if pic then dget kvs ''profile_pic_url'' (JStr []) else JStr [])])"
| "append_users pic (_ # us) acc = (Some AttributeError, acc)"

text \<open>\<^verbatim>\<open>xs[:amount]\<close>\<close>

definition py_slice_to :: "'a list \<Rightarrow> int \<Rightarrow> 'a list" where
  "py_slice_to xs amount =
     (if 0 \<le> amount then take (nat amount) xs else take (length xs - nat (- amount)) xs)"

text \<open>
  The \<^verbatim>\<open>while len(followers) < amount\<close> loop of \<^verbatim>\<open>user_followers\<close>. The platform can
  answer every page with a continuation cursor and no users, so the loop need not end:
  the first argument bounds the number of iterations, and \<open>None\<close> says that the bound was
  reached. Otherwise the loop gives the list as it stands and the exception that ended
  it, if one did.
\<close>

primrec followers_loop ::
  "nat \<Rightarrow> int \<Rightarrow> int \<Rightarrow> int \<Rightarrow> web_user list \<Rightarrow> json \<Rightarrow> state
     \<Rightarrow> ((exn option \<times> web_user list) \<times> state) option" where
  "followers_loop 0 uid amount count followers end_cursor s = None"
| "followers_loop (Suc n) uid amount count followers end_cursor s =
     (if int (length followers) < amount then
        (case api_get [Lit ''friendships/'', Fmt (JNum uid), Lit ''/followers/'']
                ([(''count'', JNum count), (''search_surface'', JStr ''follow_list_page'')]
                   @ (if truthy end_cursor then [(''max_id'', end_cursor)] else [])) 2 s of
           (Inl e, s1) \<Rightarrow> Some ((Some e, followers), s1)
         | (Inr data, s1) \<Rightarrow>
             (case py_get data ''users'' (JArr []) of
                Inl e \<Rightarrow> Some ((Some e, followers), s1)
              | Inr users \<Rightarrow>
                  (case py_iter users of
                     Inl e \<Rightarrow> Some ((Some e, followers), s1)
                   | Inr us \<Rightarrow>
                       (case append_users True us followers of
                          (Some e, got) \<Rightarrow> Some ((Some e, got), s1)
                        | (None, got) \<Rightarrow>
                            (case py_get data ''next_max_id'' JNull of
                               Inl e \<Rightarrow> Some ((Some e, got), s1)
                             | Inr nxt \<Rightarrow>
                                 if \<not> truthy nxt then Some ((None, got), s1)
                                 else followers_loop n uid amount count got nxt
                                        (s1\<lparr>trace := trace s1 @ [Delay 1000 3000]\<rparr>))))))
      else Some ((None, followers), s))"

definition user_followers :: "nat \<Rightarrow> int \<Rightarrow> int \<Rightarrow> state \<Rightarrow> (web_user list \<times> state) option" where
  "user_followers fuel uid amount s =
     (case followers_loop fuel uid amount (min amount 50) [] (JStr []) s of
        None \<Rightarrow> None
      | Some ((None, followers), s') \<Rightarrow> Some (py_slice_to followers amount, s')
      | Some ((Some e, followers), s') \<Rightarrow>
          Some (py_slice_to followers amount,
                s'\<lparr>logs := logs s' @ [(Error, ''Erro ao listar followers'')]\<rparr>))"

primrec following_loop ::
  "nat \<Rightarrow> int \<Rightarrow> int \<Rightarrow> int \<Rightarrow> web_user list \<Rightarrow> json \<Rightarrow> state
     \<Rightarrow> ((exn option \<times> web_user list) \<times> state) option" where
  "following_loop 0 uid amount count following end_cursor s = None"
| "following_loop (Suc n) uid amount count following end_cursor s =
     (if int (length following) < amount then
        (case api_get [Lit ''friendships/'', Fmt (JNum uid), Lit ''/following/'']
                ([(''count'', JNum count)]
                   @ (if truthy end_cursor then [(''max_id'', end_cursor)] else [])) 2 s of
           (Inl e, s1) \<Rightarrow> Some ((Some e, following), s1)
         | (Inr data, s1) \<Rightarrow>
             (case py_get data ''users'' (JArr []) of
                Inl e \<Rightarrow> Some ((Some e, following), s1)
              | Inr users \<Rightarrow>
                  (case py_iter users of
                     Inl e \<Rightarrow> Some ((Some e, following), s1)
                   | Inr us \<Rightarrow>
                       (case append_users False us following of
                          (Some e, got) \<Rightarrow> Some ((Some e, got), s1)
                        | (None, got) \<Rightarrow>
                            (case py_get data ''next_max_id'' JNull of
                               Inl e \<Rightarrow> Some ((Some e, got), s1)
                             | Inr nxt \<Rightarrow>
                                 if \<not> truthy nxt then Some ((None, got), s1)
                                 else following_loop n uid amount count got nxt
                                        (s1\<lparr>trace := trace s1 @ [Delay 1000 3000]\<rparr>))))))
      else Some ((None, following), s))"

definition user_following :: "nat \<Rightarrow> int \<Rightarrow> int \<Rightarrow> state \<Rightarrow> (web_user list \<times> state) option" where
  "user_following fuel uid amount s =
     (case following_loop fuel uid amount (min amount 50) [] (JStr []) s of
        None \<Rightarrow> None
      | Some ((None, following), s') \<Rightarrow> Some (py_slice_to following amount, s')
      | Some ((Some e, following), s') \<Rightarrow>
          Some (py_slice_to following amount,
                s'\<lparr>logs := logs s' @ [(Error, ''Erro ao listar following'')]\<rparr>))"

section \<open>Upload helpers\<close>

text \<open>\<^verbatim>\<open>int(x)\<close> of a float: truncation towards zero.\<close>

definition py_int :: "real \<Rightarrow> int" where
  "py_int x = (if 0 \<le> x then \<lfloor>x\<rfloor> else \<lceil>x\<rceil>)"

text \<open>
  Python's floats are IEEE 754 doubles, and a product of two of them is the exact product
  rounded to the nearest double, ties to the even mantissa. \<open>bits n\<close> is the length of
  \<open>n\<close> in binary; \<open>binary_exponent x\<close> is, for a positive \<open>x\<close>, the \<open>e\<close> with
  \<open>2 ^ e \<le> x < 2 ^ (e + 1)\<close>; a double of that size is a multiple of \<open>2 ^ (e - 52)\<close>.
  Overflow and subnormal numbers are left out: clock readings and video durations are
  far from both.
\<close>

function bits :: "nat \<Rightarrow> nat" where
  "bits n = (if n = 0 then 0 else Suc (bits (n div 2)))"
  by pat_completeness auto
termination
  by (relation "measure id") auto

definition pow2 :: "int \<Rightarrow> real" where
  "pow2 e = (if 0 \<le> e then 2 ^ nat e else 1 / 2 ^ nat (- e))"

definition binary_exponent :: "real \<Rightarrow> int" where
  "binary_exponent x =
     (if 1 \<le> x then int (bits (nat \<lfloor>x\<rfloor>)) - 1
      else (let k = int (bits (nat \<lfloor>1 / x\<rfloor>)) - 1
            in if x * pow2 k = 1 then - k else - k - 1))"

definition round_even :: "real \<Rightarrow> int" where
  "round_even q =
     (let f = \<lfloor>q\<rfloor>; r = q - of_int f
      in if r < 1 / 2 then f else if 1 / 2 < r then f + 1 else if even f then f else f + 1)"

definition to_double :: "real \<Rightarrow> real" where
  "to_double x =
     (if x = 0 then 0
      else (let a = \<bar>x\<bar>; u = pow2 (binary_exponent a - 52)
            in sgn x * (of_int (round_even (a / u)) * u)))"

text \<open>\<^verbatim>\<open>a * b\<close> on floats.\<close>

definition float_mul :: "real \<Rightarrow> real \<Rightarrow> real" where
  "float_mul a b = to_double (a * b)"

text \<open>\<^verbatim>\<open>str(n)\<close> of an integer: its decimal digits, after a minus sign when negative.\<close>

function str_nat :: "nat \<Rightarrow> string" where
  "str_nat n = (if n < 10 then [''0123456789'' ! n] else str_nat (n div 10) @ [''0123456789'' ! (n mod 10)])"
  by pat_completeness auto
termination
  by (relation "measure id") auto

definition str_int :: "int \<Rightarrow> string" where
  "str_int i = (if i < 0 then CHR ''-'' # str_nat (nat (- i)) else str_nat (nat i))"

text \<open>
  \<^verbatim>\<open>upload_id = str(int(time.time() * 1000))\<close>, the first statement of every upload
  function after the file check; \<open>t\<close> is what \<^verbatim>\<open>time.time()\<close> returns there.
\<close>

definition upload_id_of :: "real \<Rightarrow> string" where
  "upload_id_of t = str_int (py_int (float_mul t 1000))"

definition path_exists :: "string \<Rightarrow> state \<Rightarrow> bool" where
  "path_exists p s = (fs s p \<noteq> Absent)"

text \<open>\<^verbatim>\<open>with open(path, "rb") as f: data = f.read()\<close>\<close>

definition read_bytes :: "string \<Rightarrow> unit io" where
  "read_bytes p s =
     (case fs s p of
        Absent \<Rightarrow> (Inl FileNotFoundError, s)
      | Unreadable \<Rightarrow> (Inl OSError, s)
      | _ \<Rightarrow> (Inr (), s))"

text \<open>
  \<^verbatim>\<open>_get_video_info\<close>: what \<^verbatim>\<open>ffprobe\<close> found, or the fixed defaults when the tool is
  missing or its output cannot be used. It never raises.
\<close>

definition get_video_info :: "string \<Rightarrow> state \<Rightarrow> video_info" where
  "get_video_info p s =
     (case ffprobe s p of
        Probed d w h \<Rightarrow>
          \<lparr>duration = d, duration_ms = py_int (float_mul d 1000), width = w, height = h\<rparr>
      | _ \<Rightarrow> \<lparr>duration = 15, duration_ms = 15000, width = 1080, height = 1920\<rparr>)"

text \<open>\<^verbatim>\<open>video_path.rsplit(".", 1)[0]\<close>: the path up to its last dot, all of it without one.\<close>

definition rsplit_dot :: "string \<Rightarrow> string" where
  "rsplit_dot p =
     (if CHR ''.'' \<in> set p then rev (tl (dropWhile (\<lambda>c. c \<noteq> CHR ''.'') (rev p))) else p)"

text \<open>
  \<^verbatim>\<open>_extract_thumbnail\<close> with no output path given: \<^verbatim>\<open>ffmpeg\<close> may write the frame, and
  the path is returned when a file is there afterwards.
\<close>

definition extract_thumbnail :: "string \<Rightarrow> string option io" where
  "extract_thumbnail video_path s =
     (let output_path = rsplit_dot video_path @ ''_thumb.jpg''
      in case ffmpeg s video_path output_path of
           FfRaises \<Rightarrow>
             (Inr None, s\<lparr>logs := logs s @ [(Warning, ''Erro ao extrair thumbnail'')]\<rparr>)
         | FfNothing \<Rightarrow>
             (Inr (if path_exists output_path s then Some output_path else None), s)
         | FfWrote \<Rightarrow>
             (Inr (Some output_path), s\<lparr>fs := (fs s)(output_path := Raw)\<rparr>))"

text \<open>\<^verbatim>\<open>os.remove(path)\<close>\<close>

definition os_remove :: "string \<Rightarrow> unit io" where
  "os_remove p s =
     (if fs s p = Absent then (Inl FileNotFoundError, s)
      else (Inr (), s\<lparr>fs := (fs s)(p := Absent)\<rparr>))"

text \<open>\<^verbatim>\<open>logger.info(f"... {r.json().get('status', 'ok')}")\<close> after a 200.\<close>

definition uploaded_status :: "json option \<Rightarrow> unit io" where
  "uploaded_status body =
     io_bind (r_json body) (\<lambda>j. io_bind (lift (py_get j ''status'' (JStr ''ok''))) (\<lambda>_. io_ret ()))"

definition upload_photo_binary :: "string \<Rightarrow> string \<Rightarrow> bool io" where
  "upload_photo_binary image_path upload_id =
     io_bind (read_bytes image_path) (\<lambda>_.
     io_bind (http (RuploadPhoto upload_id image_path)) (\<lambda>(code, body).
       if code = 200 then io_bind (uploaded_status body) (\<lambda>_. io_ret True)
       else io_bind (log Error ''Upload foto falhou'') (\<lambda>_. io_ret False)))"

definition upload_video_binary :: "string \<Rightarrow> string \<Rightarrow> video_info \<Rightarrow> bool \<Rightarrow> bool \<Rightarrow> bool io" where
  "upload_video_binary video_path upload_id vi is_clips is_story =
     io_bind (read_bytes video_path) (\<lambda>_.
     io_bind (http (RuploadVideoInit upload_id vi is_clips is_story)) (\<lambda>_.
     io_bind (http (RuploadVideoPost upload_id vi is_clips is_story)) (\<lambda>(code, body).
       if code = 200 then io_bind (uploaded_status body) (\<lambda>_. io_ret True)
       else io_bind (log Error ''Upload video falhou'') (\<lambda>_. io_ret False))))"

text \<open>
  The thumbnail step shared by the three video uploads: the given thumbnail or an
  extracted frame is uploaded under the same upload id, the result of that upload is not
  looked at, and an extracted frame is removed afterwards.
\<close>

definition upload_thumbnail :: "string \<Rightarrow> string \<Rightarrow> string option \<Rightarrow> unit io" where
  "upload_thumbnail video_path upload_id thumbnail_path =
     (let given = (case thumbnail_path of None \<Rightarrow> False | Some p \<Rightarrow> p \<noteq> [])
      in io_bind (if given then io_ret thumbnail_path else extract_thumbnail video_path) (\<lambda>thumb.
           case thumb of
             None \<Rightarrow> io_ret ()
           | Some th \<Rightarrow>
               if th = [] then io_ret ()
               else
                 io_bind (upload_photo_binary th upload_id) (\<lambda>_.
                   if \<not> given then
                     (\<lambda>s. if path_exists th s then os_remove th s else (Inr (), s))
                   else io_ret ())))"

text \<open>
  The end of the feed, video and clip uploads: a 200 whose body has status \<^verbatim>\<open>ok\<close> is the
  result, after \<^verbatim>\<open>media.get("code", "")\<close> has been read for the log line.
\<close>

definition configure_result :: "string \<Rightarrow> bool \<Rightarrow> nat \<times> json option \<Rightarrow> json option io" where
  "configure_result what reads_media r =
     (case r of (code, body) \<Rightarrow>
        if code = 200 then
          io_bind (r_json body) (\<lambda>result.
          io_bind (lift (py_get result ''status'' JNull)) (\<lambda>status.
            if status = JStr ''ok'' then
              (if reads_media then
                 io_bind (lift (py_get result ''media'' (JObj []))) (\<lambda>media.
                 io_bind (lift (py_get media ''code'' (JStr []))) (\<lambda>_. io_ret (Some result)))
               else io_ret (Some result))
            else io_bind (log Error (what @ '' falhou'')) (\<lambda>_. io_ret None)))
        else io_bind (log Error (what @ '' HTTP'')) (\<lambda>_. io_ret None))"

section \<open>Uploads\<close>

definition photo_upload :: "real \<Rightarrow> string \<Rightarrow> string \<Rightarrow> json option io" where
  "photo_upload t image_path caption s =
     (if \<not> path_exists image_path s
      then (Inr None, s\<lparr>logs := logs s @ [(Error, ''Arquivo nao encontrado'')]\<rparr>)
      else
        io_try
          (io_bind (upload_photo_binary image_path (upload_id_of t)) (\<lambda>ok.
             if \<not> ok then io_ret None
             else
               io_bind (emit (Delay 2000 4000)) (\<lambda>_.
               io_bind refresh_csrf (\<lambda>_.
               io_bind (http (Configure Feed (upload_id_of t) caption))
                 (configure_result ''Configure feed'' True)))))
          (\<lambda>e. io_bind (log Error ''Erro no upload de foto'') (\<lambda>_. io_ret None)) s)"

definition video_upload :: "real \<Rightarrow> string \<Rightarrow> string \<Rightarrow> string option \<Rightarrow> json option io" where
  "video_upload t video_path caption thumbnail_path s =
     (if \<not> path_exists video_path s
      then (Inr None, s\<lparr>logs := logs s @ [(Error, ''Arquivo nao encontrado'')]\<rparr>)
      else
        io_try
          (io_bind (upload_video_binary video_path (upload_id_of t) (get_video_info video_path s)
                      False False) (\<lambda>ok.
             if \<not> ok then io_ret None
             else
               io_bind (upload_thumbnail video_path (upload_id_of t) thumbnail_path) (\<lambda>_.
               io_bind (emit (Delay 3000 6000)) (\<lambda>_.
               io_bind refresh_csrf (\<lambda>_.
               io_bind (http (Configure FeedVideo (upload_id_of t) caption))
                 (configure_result ''Configure video feed'' True))))))
          (\<lambda>e. io_bind (log Error ''Erro no upload de video'') (\<lambda>_. io_ret None)) s)"

definition photo_upload_to_story :: "real \<Rightarrow> string \<Rightarrow> string \<Rightarrow> json option io" where
  "photo_upload_to_story t image_path caption s =
     (if \<not> path_exists image_path s
      then (Inr None, s\<lparr>logs := logs s @ [(Error, ''Arquivo nao encontrado'')]\<rparr>)
      else
        io_try
          (io_bind (upload_photo_binary image_path (upload_id_of t)) (\<lambda>ok.
             if \<not> ok then io_ret None
             else
               io_bind (emit (Delay 2000 4000)) (\<lambda>_.
               io_bind refresh_csrf (\<lambda>_.
               io_bind (http (Configure Story (upload_id_of t) []))
                 (configure_result ''Configure story'' False)))))
          (\<lambda>e. io_bind (log Error ''Erro no upload de story (foto)'') (\<lambda>_. io_ret None)) s)"

definition video_upload_to_story :: "real \<Rightarrow> string \<Rightarrow> string \<Rightarrow> string option \<Rightarrow> json option io" where
  "video_upload_to_story t video_path caption thumbnail_path s =
     (if \<not> path_exists video_path s
      then (Inr None, s\<lparr>logs := logs s @ [(Error, ''Arquivo nao encontrado'')]\<rparr>)
      else
        io_try
          (io_bind (if duration (get_video_info video_path s) > 60
                    then log Warning ''Stories permitem no maximo 60 segundos de video''
                    else io_ret ()) (\<lambda>_.
           io_bind (upload_video_binary video_path (upload_id_of t) (get_video_info video_path s)
                      False True) (\<lambda>ok.
             if \<not> ok then io_ret None
             else
               io_bind (upload_thumbnail video_path (upload_id_of t) thumbnail_path) (\<lambda>_.
               io_bind (emit (Delay 3000 6000)) (\<lambda>_.
               io_bind refresh_csrf (\<lambda>_.
               io_bind (http (Configure StoryVideo (upload_id_of t) []))
                 (configure_result ''Configure story video'' False)))))))
          (\<lambda>e. io_bind (log Error ''Erro no upload de story (video)'') (\<lambda>_. io_ret None)) s)"

definition clip_upload :: "real \<Rightarrow> string \<Rightarrow> string \<Rightarrow> string option \<Rightarrow> json option io" where
  "clip_upload t video_path caption thumbnail_path s =
     (if \<not> path_exists video_path s
      then (Inr None, s\<lparr>logs := logs s @ [(Error, ''Arquivo nao encontrado'')]\<rparr>)
      else
        io_try
          (io_bind (if duration (get_video_info video_path s) > 90
                    then log Warning ''Reels permitem no maximo 90 segundos''
                    else io_ret ()) (\<lambda>_.
           io_bind (upload_video_binary video_path (upload_id_of t) (get_video_info video_path s)
                      True False) (\<lambda>ok.
             if \<not> ok then io_ret None
             else
               io_bind (upload_thumbnail video_path (upload_id_of t) thumbnail_path) (\<lambda>_.
               io_bind (emit (Delay 3000 6000)) (\<lambda>_.
               io_bind refresh_csrf (\<lambda>_.
               io_bind (http (Configure Clips (upload_id_of t) caption))
                 (configure_result ''Configure Reel'' True)))))))
          (\<lambda>e. io_bind (log Error ''Erro no upload de Reel'') (\<lambda>_. io_ret None)) s)"

section \<open>Resolving a post URL\<close>

definition shortcode_char :: "char \<Rightarrow> bool" where
  "shortcode_char c =
     (c \<in> set ''ABCDEFGHIJKLMNOPQRSTUVWXYZabcdefghijklmnopqrstuvwxyz0123456789_-'')"

text \<open>
  \<^verbatim>\<open>re.search(prefix + "([A-Za-z0-9_-]+)", url)\<close> for a literal prefix: the leftmost
  place where the prefix is followed by a shortcode character, and the longest run of
  such characters there.
\<close>

fun re_search :: "string \<Rightarrow> string \<Rightarrow> string option" where
  "re_search pre [] = None"
| "re_search pre (c # cs) =
     (if take (length pre) (c # cs) = pre \<and> takeWhile shortcode_char (drop (length pre) (c # cs)) \<noteq> []
      then Some (takeWhile shortcode_char (drop (length pre) (c # cs)))
      else re_search pre cs)"

text \<open>\<^verbatim>\<open>_shortcode_to_media_id\<close>; \<open>JNull\<close> is its \<^verbatim>\<open>None\<close>.\<close>

definition shortcode_to_media_id :: "string \<Rightarrow> json io" where
  "shortcode_to_media_id shortcode =
     io_try
       (io_bind (http (GraphqlGet ''b3055c01b4b222b8a47dc12b090e4e64'' shortcode)) (\<lambda>(code, body).
          if code = 200 then
            io_bind (r_json body) (\<lambda>data.
            io_bind (lift (py_get data ''data'' (JObj []))) (\<lambda>d.
            io_bind (lift (py_get d ''shortcode_media'' (JObj []))) (\<lambda>media.
              lift (py_get media ''id'' JNull))))
          else io_ret JNull))
       (\<lambda>e. io_bind (log Error ''Erro ao converter shortcode'') (\<lambda>_. io_ret JNull))"

definition media_pk_from_url :: "string \<Rightarrow> json io" where
  "media_pk_from_url url =
     (case re_search ''instagram.com/p/'' url of
        Some shortcode \<Rightarrow> shortcode_to_media_id shortcode
      | None \<Rightarrow>
          (case re_search ''instagram.com/reel/'' url of
             Some shortcode \<Rightarrow> shortcode_to_media_id shortcode
           | None \<Rightarrow>
               (case re_search ''instagram.com/tv/'' url of
                  Some shortcode \<Rightarrow> shortcode_to_media_id shortcode
                | None \<Rightarrow> io_ret JNull)))"

section \<open>Rate limiter and the bot's like action\<close>

text \<open>
  Modelled from the spec: the class \<^verbatim>\<open>RateLimiter\<close> of \<^verbatim>\<open>utils.py\<close>, which is not
  among the sources. The spec describes it as a counter per action kind over hourly
  windows, reset when the window rolls over; an action is permitted while the count of
  the current window is below the ceiling, and recording an action adds one to it. The
  state keeps, per kind, the hour of the window and the count; \<open>hour\<close> is the current
  hour.
\<close>

definition window_count :: "string \<Rightarrow> nat \<Rightarrow> state \<Rightarrow> nat" where
  "window_count kind hour s = (if fst (rate s kind) = hour then snd (rate s kind) else 0)"

definition can_perform :: "string \<Rightarrow> int \<Rightarrow> nat \<Rightarrow> state \<Rightarrow> bool" where
  "can_perform kind limit hour s = (int (window_count kind hour s) < limit)"

definition record_action :: "string \<Rightarrow> nat \<Rightarrow> unit io" where
  "record_action kind hour s =
     (Inr (), s\<lparr>rate := (rate s)(kind := (hour, window_count kind hour s + 1)),
               trace := trace s @ [Recorded kind]\<rparr>)"

text \<open>
  \<^verbatim>\<open>InstagramBot.like_post\<close> of \<^verbatim>\<open>bot.py\<close>; \<open>max_likes\<close> is
  \<^verbatim>\<open>config.MAX_LIKES_PER_HOUR\<close>. The value \<^verbatim>\<open>media_like\<close> returns is dropped.
\<close>

definition like_post :: "int \<Rightarrow> nat \<Rightarrow> string \<Rightarrow> bool io" where
  "like_post max_likes hour post_url s =
     (if \<not> can_perform ''likes'' max_likes hour s then (Inr False, s)
      else
        io_try
          (io_bind (media_pk_from_url post_url) (\<lambda>media_id.
             if \<not> truthy media_id then
               io_bind (log Warning ''Nao foi possivel extrair media ID'') (\<lambda>_. io_ret False)
             else
               io_bind (media_like media_id) (\<lambda>_.
               io_bind (record_action ''likes'' hour) (\<lambda>_.
               io_bind (emit (Delay 2000 5000)) (\<lambda>_. io_ret True)))))
          (\<lambda>e. io_bind (log Warning ''Erro ao curtir post'') (\<lambda>_. io_ret False)) s)"

section \<open>A new client\<close>

text \<open>
  The client as \<^verbatim>\<open>__init__\<close> leaves it, in a world where nothing answers, no file
  exists and no tool is installed.
\<close>

definition init_state :: state where
  "init_state =
     \<lparr>cookies = [], csrf_header = None, csrf_token = JStr [], user_id = JNull, username = JNull,
      is_authenticated = False, net = (\<lambda>_. Failed), trace = [], logs = [],
      fs = (\<lambda>_. Absent), ffprobe = (\<lambda>_. ProbeUnavailable), ffmpeg = (\<lambda>_ _. FfRaises),
      rate = (\<lambda>_. (0, 0))\<rparr>"

text \<open>The requests of a trace, in order.\<close>

fun requests :: "event list \<Rightarrow> request list" where
  "requests [] = []"
| "requests (Net rq h # es) = rq # requests es"
| "requests (_ # es) = requests es"

text \<open>
  The backoff rounds of a retried call: a random delay, the request, then a sleep of
  thirty seconds times the number of the attempt, for the attempts \<open>a\<close> to \<open>a + k - 1\<close>
  (counted from 0).
\<close>

definition backoff_rounds :: "request \<Rightarrow> json option \<Rightarrow> nat \<Rightarrow> nat \<Rightarrow> event list" where
  "backoff_rounds rq h a k =
     concat (map (\<lambda>i. [Delay 500 1500, Net rq h, Sleep (30 * (i + 1))]) [a..<a + k])"

text \<open>What the answer to the last request of a transport call becomes for the caller.\<close>

definition surfaced :: "reply \<Rightarrow> exn + json" where
  "surfaced r =
     (case r of
        Failed \<Rightarrow> Inl RequestFailed
      | Reply code body \<Rightarrow>
          if is_http_error code then Inl (HTTPError code)
          else (case body of None \<Rightarrow> Inl JSONDecodeError | Some j \<Rightarrow> Inr j))"

subsection \<open>The pages of a list fetch\<close>

text \<open>
  The list fetches call \<^verbatim>\<open>_api_get\<close> with its default of two retries: when the answer to
  the first request of a call has status 429 a second request is sent, and when that one
  is answered with 429 too, a third. For a call that starts at request \<open>n\<close>, the request
  whose answer the call surfaces:
\<close>

definition is_429 :: "reply \<Rightarrow> bool" where
  "is_429 r = (case r of Failed \<Rightarrow> False | Reply code body \<Rightarrow> code = 429)"

definition decisive :: "(nat \<Rightarrow> reply) \<Rightarrow> nat \<Rightarrow> nat" where
  "decisive f n = (if is_429 (f n) then (if is_429 (f (n + 1)) then n + 2 else n + 1) else n)"

text \<open>
  A list fetch makes one such call per page, each starting after the decisive request of
  the one before. The decisive request of page \<open>i\<close> of a fetch that starts at request \<open>n\<close>:
\<close>

primrec page_at :: "(nat \<Rightarrow> reply) \<Rightarrow> nat \<Rightarrow> nat \<Rightarrow> nat" where
  "page_at f n 0 = decisive f n"
| "page_at f n (Suc i) = page_at f (decisive f n + 1) i"

text \<open>
  The users that the page with answer \<open>r\<close> adds to the list: the entries of \<^verbatim>\<open>users\<close> up
  to the first that is not a dict, and none when the call raises or \<^verbatim>\<open>users\<close> cannot be
  read or iterated.
\<close>

definition page_users :: "bool \<Rightarrow> reply \<Rightarrow> web_user list" where
  "page_users pic r =
     (case surfaced r of
        Inl e \<Rightarrow> []
      | Inr data \<Rightarrow>
          (case py_get data ''users'' (JArr []) of
             Inl e \<Rightarrow> []
           | Inr users \<Rightarrow>
               (case py_iter users of
                  Inl e \<Rightarrow> []
                | Inr us \<Rightarrow> snd (append_users pic us []))))"

text \<open>
  The loop goes on after the page with answer \<open>r\<close> when nothing was raised while the page
  was fetched and read and its \<^verbatim>\<open>next_max_id\<close> is truthy.
\<close>

definition page_continues :: "bool \<Rightarrow> reply \<Rightarrow> bool" where
  "page_continues pic r =
     (case surfaced r of
        Inl e \<Rightarrow> False
      | Inr data \<Rightarrow>
          (case py_get data ''users'' (JArr []) of
             Inl e \<Rightarrow> False
           | Inr users \<Rightarrow>
               (case py_iter users of
                  Inl e \<Rightarrow> False
                | Inr us \<Rightarrow>
                    fst (append_users pic us []) = None
                    \<and> (case py_get data ''next_max_id'' JNull of
                          Inl e \<Rightarrow> False
                        | Inr nxt \<Rightarrow> truthy nxt))))"

text \<open>The users of the first \<open>k\<close> pages of a fetch that starts at request \<open>n\<close>, in order.\<close>

primrec fetched :: "bool \<Rightarrow> (nat \<Rightarrow> reply) \<Rightarrow> nat \<Rightarrow> nat \<Rightarrow> web_user list" where
  "fetched pic f n 0 = []"
| "fetched pic f n (Suc k) = page_users pic (f (decisive f n)) @ fetched pic f (decisive f n + 1) k"

section \<open>Example worlds\<close>

text \<open>A platform that answers every request with 429.\<close>

definition always_429 :: state where
  "always_429 = init_state\<lparr>net := (\<lambda>_. Reply 429 None)\<rparr>"

text \<open>A platform that answers the first request with 429 and every later one with success.\<close>

definition once_429 :: state where
  "once_429 =
     init_state\<lparr>net := (\<lambda>n. if n = 0 then Reply 429 None
                             else Reply 200 (Some (JObj [(''status'', JStr ''ok'')])))\<rparr>"

text \<open>
  A client whose jar holds two CSRF cookies, set for two domains; one into whose jar three
  CSRF cookies were set in turn, the third under the key of the first; and one whose only
  CSRF cookie has an empty value while the header still carries an earlier token.
\<close>

definition two_csrf :: state where
  "two_csrf =
     init_state\<lparr>cookies := [Cookie ''.instagram.com'' ''/'' ''csrftoken'' (JStr ''first''),
                             Cookie ''.instagram.com'' ''/'' ''sessionid'' (JStr ''abc''),
                             Cookie ''www.instagram.com'' ''/'' ''csrftoken'' (JStr ''second'')],
                 net := (\<lambda>_. Reply 200 (Some (JObj [(''status'', JStr ''ok'')])))\<rparr>"

definition reset_csrf :: state where
  "reset_csrf =
     init_state\<lparr>cookies :=
       fold jar_set_cookie
         [Cookie ''.instagram.com'' ''/'' ''csrftoken'' (JStr ''first''),
          Cookie ''www.instagram.com'' ''/'' ''csrftoken'' (JStr ''second''),
          Cookie ''.instagram.com'' ''/'' ''csrftoken'' (JStr ''third'')] []\<rparr>"

definition empty_csrf :: state where
  "empty_csrf =
     init_state\<lparr>cookies := [Cookie ''.instagram.com'' ''/'' ''csrftoken'' (JStr [])],
                 csrf_header := Some (JStr ''old''), csrf_token := JStr ''old''\<rparr>"

text \<open>The key under which the jar stores a cookie.\<close>

definition cookie_key :: "cookie \<Rightarrow> string \<times> string \<times> string" where
  "cookie_key c = (c_domain c, c_path c, c_name c)"

text \<open>Whether a decoded answer is a dict whose field \<open>k\<close> is the string \<open>v\<close>.\<close>

definition field_is :: "string \<Rightarrow> string \<Rightarrow> exn + json \<Rightarrow> bool" where
  "field_is k v r = (case r of Inr (JObj kvs) \<Rightarrow> map_of kvs k = Some (JStr v) | _ \<Rightarrow> False)"

text \<open>A platform that answers every request with HTTP 200 and a status other than ok.\<close>

definition always_fail_200 :: state where
  "always_fail_200 = init_state\<lparr>net := (\<lambda>_. Reply 200 (Some (JObj [(''status'', JStr ''fail'')])))\<rparr>"

text \<open>
  Whether an answer to the probe of \<^verbatim>\<open>_verify_session\<close> counts as a live session: a
  200 whose body is an object with status \<open>ok\<close> or with a \<open>form_data\<close> field.
\<close>

definition probe_succeeds :: "reply \<Rightarrow> bool" where
  "probe_succeeds r =
     (case r of
        Reply code (Some (JObj kvs)) \<Rightarrow>
          code = 200 \<and> (map_of kvs ''status'' = Some (JStr ''ok'') \<or> map_of kvs ''form_data'' \<noteq> None)
      | _ \<Rightarrow> False)"

text \<open>
  A new client with a session snapshot on disk whose cookies the platform no longer
  accepts, and the same for a client that is already flagged as authenticated.
\<close>

definition expired_snapshot :: state where
  "expired_snapshot =
     init_state\<lparr>fs := (\<lambda>p. if p = ''./data/session.json''
                           then Parsed (JObj [(''cookies'', JObj [(''sessionid'', JStr ''stale''),
                                                                   (''csrftoken'', JStr ''tok'')]),
                                              (''user_id'', JStr ''42''),
                                              (''username'', JStr ''alice''),
                                              (''csrf_token'', JStr ''tok'')])
                           else Absent),
                 net := (\<lambda>_. Reply 401 (Some (JObj [(''status'', JStr ''fail'')])))\<rparr>"

definition authenticated_expired_snapshot :: state where
  "authenticated_expired_snapshot = expired_snapshot\<lparr>is_authenticated := True\<rparr>"

text \<open>
  How the platform can answer the steps of an upload. A binary upload is accepted by a
  200 whose body is a JSON object. A thumbnail upload goes through without an exception
  when it is answered at all and a 200 comes with a JSON object. A configure call has
  published when it is answered by a 200 whose body is an object with status \<open>ok\<close>.
\<close>

definition accepted :: "reply \<Rightarrow> bool" where
  "accepted r = (case r of Reply code (Some (JObj kvs)) \<Rightarrow> code = 200 | _ \<Rightarrow> False)"

definition quiet :: "reply \<Rightarrow> bool" where
  "quiet r =
     (case r of
        Failed \<Rightarrow> False
      | Reply code body \<Rightarrow>
          code \<noteq> 200 \<or> (case body of Some (JObj kvs) \<Rightarrow> True | _ \<Rightarrow> False))"

definition published :: "reply \<Rightarrow> bool" where
  "published r =
     (case r of
        Reply code (Some (JObj kvs)) \<Rightarrow> code = 200 \<and> map_of kvs ''status'' = Some (JStr ''ok'')
      | _ \<Rightarrow> False)"

definition readable :: "string \<Rightarrow> state \<Rightarrow> bool" where
  "readable p s = (fs s p \<noteq> Absent \<and> fs s p \<noteq> Unreadable)"

text \<open>
  A later state extends an earlier one when trace and log have only grown at the end
  and the platform is the same; a computation grows when every run of it does that.
\<close>

definition extends :: "state \<Rightarrow> state \<Rightarrow> bool" where
  "extends s s' =
     (take (length (trace s)) (trace s') = trace s \<and> take (length (logs s)) (logs s') = logs s
      \<and> net s' = net s)"

definition grows :: "'a io \<Rightarrow> bool" where
  "grows m = (\<forall>s. extends s (snd (m s)))"

text \<open>
  A ten-second 1080x1920 video on disk, with both tools at hand and a platform that
  accepts everything; the same with a platform that rejects the posted video bytes; the
  same with a video of 75 seconds.
\<close>

definition video_world :: state where
  "video_world =
     init_state\<lparr>fs := (\<lambda>p. if p = ''clip.mp4'' then Raw else Absent),
                 ffprobe := (\<lambda>_. Probed 10 1080 1920),
                 ffmpeg := (\<lambda>_ _. FfWrote),
                 net := (\<lambda>_. Reply 200 (Some (JObj [(''status'', JStr ''ok''),
                                                    (''media'', JObj [(''code'', JStr ''Cx1'')])])))\<rparr>"

definition video_rejected_world :: state where
  "video_rejected_world =
     video_world\<lparr>net := (\<lambda>n. if n = 1 then Reply 500 None
                               else Reply 200 (Some (JObj [(''status'', JStr ''ok'')])))\<rparr>"

definition long_story_world :: state where
  "long_story_world = video_world\<lparr>ffprobe := (\<lambda>_. Probed 75 1080 1920)\<rparr>"

text \<open>
  A platform that answers the first page of a list with two users and a continuation
  cursor, and does not answer the request for the second page.
\<close>

definition two_pages_world :: state where
  "two_pages_world =
     init_state\<lparr>net := (\<lambda>n. if n = 0
                           then Reply 200 (Some (JObj
                                  [(''users'', JArr [JObj [(''pk'', JNum 11), (''username'', JStr ''ann'')],
                                                     JObj [(''pk'', JNum 12), (''username'', JStr ''bob'')]]),
                                   (''next_max_id'', JStr ''c1'')]))
                           else Failed)\<rparr>"

text \<open>
  A platform that resolves the shortcode of a post to the media id 31 and answers the
  request that follows, the like, with HTTP 200 and a status other than ok.
\<close>

definition like_refused_world :: state where
  "like_refused_world =
     init_state\<lparr>net := (\<lambda>n. if n = 0
                           then Reply 200 (Some (JObj [(''data'',
                                  JObj [(''shortcode_media'', JObj [(''id'', JStr ''31'')])])]))
                           else Reply 200 (Some (JObj [(''status'', JStr ''fail'')])))\<rparr>"

section \<open>Basic facts\<close>

declare bits.simps [simp del]

lemma bits_numeral [simp]:
  "bits 0 = 0" "bits (numeral k) = Suc (bits (numeral k div 2))"
  by (subst bits.simps, simp)+

lemma bits_one [simp]: "bits (Suc 0) = Suc 0" "bits 1 = Suc 0"
  by (subst bits.simps, simp)+

lemmas float_defs = float_mul_def to_double_def binary_exponent_def pow2_def round_even_def Let_def

lemma io_bind_ret [simp]: "io_bind (io_ret x) k = k x"
  by (rule ext) (simp add: io_bind_def io_ret_def)

lemma io_bind_raise [simp]: "io_bind (io_raise e) k = io_raise e"
  by (rule ext) (simp add: io_bind_def io_raise_def)

lemma io_bind_emit [simp]: "io_bind (emit e) k s = k () (s\<lparr>trace := trace s @ [e]\<rparr>)"
  by (simp add: io_bind_def emit_def)

lemma io_bind_log [simp]: "io_bind (log l m) k s = k () (s\<lparr>logs := logs s @ [(l, m)]\<rparr>)"
  by (simp add: io_bind_def log_def)

lemma io_try_ret [simp]: "io_try (io_ret x) h = io_ret x"
  by (rule ext) (simp add: io_try_def io_ret_def)

lemma io_try_raise [simp]: "io_try (io_raise e) h = h e"
  by (rule ext) (simp add: io_try_def io_raise_def)

lemma io_bind_lift [simp]:
  "io_bind (lift (Inr x)) k = k x" "io_bind (lift (Inl e)) k = io_raise e"
  by (rule ext, simp add: io_bind_def lift_def io_raise_def)+

lemma nreq_append [simp]: "nreq (xs @ ys) = nreq xs + nreq ys"
  by (simp add: nreq_def)

lemma nreq_simps [simp]:
  "nreq [] = 0" "nreq (Net r h # es) = Suc (nreq es)" "nreq (Sleep n # es) = nreq es"
  "nreq (Delay a b # es) = nreq es" "nreq (Recorded k # es) = nreq es"
  by (simp_all add: nreq_def)

lemma requests_append [simp]: "requests (xs @ ys) = requests xs @ requests ys"
  by (induction xs rule: requests.induct) simp_all

declare api_get_loop.simps(2) [simp del] api_post_loop.simps(2) [simp del]

section \<open>The CSRF refresh\<close>

lemma fold_jar_clear:
  "fold jar_clear bs jar = filter (\<lambda>x. \<forall>b\<in>set bs. \<not> same_key x b) jar"
proof (induction bs arbitrary: jar)
  case Nil
  then show ?case by simp
next
  case (Cons b bs)
  have "fold jar_clear (b # bs) jar = fold jar_clear bs (jar_clear b jar)" by simp
  also have "\<dots> = filter (\<lambda>x. \<forall>b\<in>set bs. \<not> same_key x b) (jar_clear b jar)"
    by (rule Cons.IH)
  also have "\<dots> = filter (\<lambda>x. \<forall>b\<in>set bs. \<not> same_key x b) (filter (\<lambda>x. \<not> same_key x b) jar)"
    by (simp only: jar_clear_def)
  finally show ?case by simp
qed

lemma dedupe_csrf_small:
  "\<not> length (filter is_csrf jar) > 1 \<Longrightarrow> dedupe_csrf jar = jar"
  by (simp add: dedupe_csrf_def)

lemma dedupe_csrf_filter:
  assumes "length (filter is_csrf jar) > 1"
  shows "filter is_csrf (dedupe_csrf jar) =
         filter (\<lambda>x. \<forall>b\<in>set (butlast (filter is_csrf jar)). \<not> same_key x b) [last (filter is_csrf jar)]"
proof -
  define cs where "cs = filter is_csrf jar"
  define P where "P = (\<lambda>x. \<forall>b\<in>set (butlast cs). \<not> same_key x b)"
  from assms have ne: "cs \<noteq> []" by (auto simp: cs_def)
  have "dedupe_csrf jar = filter P jar"
    using assms by (simp add: dedupe_csrf_def fold_jar_clear cs_def P_def)
  then have "filter is_csrf (dedupe_csrf jar) = filter P cs"
    by (simp add: cs_def conj_commute cong: filter_cong)
  also have "cs = butlast cs @ [last cs]" using ne by simp
  then have "filter P cs = filter P (butlast cs) @ filter P [last cs]"
    by (metis filter_append)
  also have "filter P (butlast cs) = []"
    by (auto simp: P_def filter_empty_conv same_key_def)
  finally show ?thesis by (simp add: cs_def P_def)
qed

lemma dedupe_csrf_at_most_one: "length (filter is_csrf (dedupe_csrf jar)) \<le> 1"
proof (cases "length (filter is_csrf jar) > 1")
  case True
  then show ?thesis by (simp add: dedupe_csrf_filter)
next
  case False
  then show ?thesis by (simp add: dedupe_csrf_small)
qed

lemma dedupe_csrf_keeps_last:
  assumes "distinct (map (\<lambda>c. (c_domain c, c_path c, c_name c)) jar)" and "filter is_csrf jar \<noteq> []"
  shows "filter is_csrf (dedupe_csrf jar) = [last (filter is_csrf jar)]"
proof (cases "length (filter is_csrf jar) > 1")
  case False
  with assms(2) have "length (filter is_csrf jar) = 1"
    by (cases "filter is_csrf jar") auto
  then obtain c where c: "filter is_csrf jar = [c]"
    by (cases "filter is_csrf jar") auto
  then show ?thesis using False by (simp add: dedupe_csrf_small)
next
  case True
  define key where "key = (\<lambda>c. (c_domain c, c_path c, c_name c))"
  define cs where "cs = filter is_csrf jar"
  have ne: "cs \<noteq> []" using assms(2) by (simp add: cs_def)
  have "distinct (map key cs)"
    using assms(1) by (simp add: cs_def key_def distinct_map_filter)
  moreover have "cs = butlast cs @ [last cs]" using ne by simp
  ultimately have "distinct (map key (butlast cs @ [last cs]))" by simp
  then have "key (last cs) \<notin> key ` set (butlast cs)" by simp
  then have "\<forall>b\<in>set (butlast cs). \<not> same_key (last cs) b"
    by (auto simp: key_def same_key_def)
  then show ?thesis using True by (simp add: dedupe_csrf_filter cs_def)
qed

lemma jar_get_csrf:
  "length (filter is_csrf jar) \<le> 1 \<Longrightarrow>
   jar_get ''csrftoken'' d jar =
     Inr (case filter is_csrf jar of [] \<Rightarrow> d | c # _ \<Rightarrow> if truthy (c_value c) then c_value c else d)"
proof -
  assume a: "length (filter is_csrf jar) \<le> 1"
  have eq: "filter (\<lambda>c. c_name c = ''csrftoken'') jar = filter is_csrf jar"
    by (rule filter_cong) (simp_all add: is_csrf_def)
  show ?thesis
    using a unfolding jar_get_def eq
    by (cases "filter is_csrf jar"; cases "tl (filter is_csrf jar)") auto
qed

lemma jar_get_dedupe:
  "jar_get ''csrftoken'' d (dedupe_csrf jar) =
     Inr (case filter is_csrf (dedupe_csrf jar) of [] \<Rightarrow> d
          | c # _ \<Rightarrow> if truthy (c_value c) then c_value c else d)"
  by (rule jar_get_csrf) (rule dedupe_csrf_at_most_one)

lemma refresh_csrf_eq:
  "refresh_csrf s =
     (Inr (),
      (case filter is_csrf (dedupe_csrf (cookies s)) of
         [] \<Rightarrow> s\<lparr>cookies := dedupe_csrf (cookies s)\<rparr>
       | c # _ \<Rightarrow>
           if truthy (c_value c)
           then s\<lparr>cookies := dedupe_csrf (cookies s), csrf_token := c_value c, csrf_header := Some (c_value c)\<rparr>
           else s\<lparr>cookies := dedupe_csrf (cookies s)\<rparr>))"
  by (simp add: refresh_csrf_def Let_def jar_get_dedupe split: list.splits)

lemma refresh_csrf_upd:
  "\<exists>t h. refresh_csrf s = (Inr (), s\<lparr>cookies := dedupe_csrf (cookies s), csrf_token := t, csrf_header := h\<rparr>)"
proof -
  have same: "s\<lparr>cookies := dedupe_csrf (cookies s)\<rparr> =
        s\<lparr>cookies := dedupe_csrf (cookies s), csrf_token := csrf_token s, csrf_header := csrf_header s\<rparr>"
    by simp
  show ?thesis
  proof (cases "filter is_csrf (dedupe_csrf (cookies s))")
    case Nil
    then have "refresh_csrf s = (Inr (), s\<lparr>cookies := dedupe_csrf (cookies s)\<rparr>)"
      by (simp add: refresh_csrf_eq)
    with same show ?thesis by metis
  next
    case (Cons c cs)
    show ?thesis
    proof (cases "truthy (c_value c)")
      case True
      with Cons have "refresh_csrf s = (Inr (), s\<lparr>cookies := dedupe_csrf (cookies s),
          csrf_token := c_value c, csrf_header := Some (c_value c)\<rparr>)"
        by (simp add: refresh_csrf_eq)
      then show ?thesis by blast
    next
      case False
      with Cons have "refresh_csrf s = (Inr (), s\<lparr>cookies := dedupe_csrf (cookies s)\<rparr>)"
        by (simp add: refresh_csrf_eq)
      with same show ?thesis by metis
    qed
  qed
qed

section \<open>Retries of the transport layer\<close>

lemma backoff_rounds_0 [simp]: "backoff_rounds rq h a 0 = []"
  by (simp add: backoff_rounds_def)

lemma backoff_rounds_Suc:
  "backoff_rounds rq h a (Suc k) =
     [Delay 500 1500, Net rq h, Sleep (30 * (a + 1))] @ backoff_rounds rq h (Suc a) k"
  by (simp add: backoff_rounds_def upt_conv_Cons)

lemma nreq_backoff_rounds [simp]: "nreq (backoff_rounds rq h a k) = k"
  by (induction k arbitrary: a) (simp_all add: backoff_rounds_Suc)

lemma api_get_loop_429:
  assumes "\<forall>i<k. \<exists>b. net s (nreq (trace s) + i) = Reply 429 b"
    and "int (a + k) \<le> retries"
  shows "\<exists>s'. api_get_loop (k + Suc m) ep ps retries a s = api_get_loop (Suc m) ep ps retries (a + k) s'
           \<and> trace s' = trace s @ backoff_rounds (ApiGet ep ps) (csrf_header s) a k
           \<and> net s' = net s \<and> csrf_header s' = csrf_header s"
  using assms
proof (induction k arbitrary: s a)
  case 0
  show ?case by (rule exI[of _ s]) simp
next
  case (Suc k)
  from Suc.prems(1) obtain b where b: "net s (nreq (trace s)) = Reply 429 b"
    by (metis add.right_neutral zero_less_Suc)
  define s1 where "s1 = s\<lparr>trace := trace s @ [Delay 500 1500, Net (ApiGet ep ps) (csrf_header s), Sleep (30 * (a + 1))],
                          logs := logs s @ [(Error, ''API GET: HTTP''), (Warning, ''Rate limit (429)'')]\<rparr>"
  have lt: "int a < retries" using Suc.prems(2) by simp
  have step: "api_get_loop (Suc k + Suc m) ep ps retries a s = api_get_loop (k + Suc m) ep ps retries (a + 1) s1"
    using b lt by (simp add: api_get_loop.simps(2) io_bind_def io_try_def http_def is_http_error_def s1_def emit_def log_def)
  have "\<forall>i<k. \<exists>b. net s1 (nreq (trace s1) + i) = Reply 429 b"
    using Suc.prems(1) by (auto simp: s1_def)
  moreover have "int (a + 1 + k) \<le> retries" using Suc.prems(2) by simp
  ultimately obtain s' where s': "api_get_loop (k + Suc m) ep ps retries (a + 1) s1 = api_get_loop (Suc m) ep ps retries (a + 1 + k) s'"
      "trace s' = trace s1 @ backoff_rounds (ApiGet ep ps) (csrf_header s1) (a + 1) k" "net s' = net s1" "csrf_header s' = csrf_header s1"
    using Suc.IH[of s1 "a + 1"] by blast
  show ?case
    apply (rule exI[of _ s'])
    using s' step by (simp add: backoff_rounds_Suc s1_def)
qed

lemma api_get_loop_last:
  assumes "\<not> (int a < retries \<and> (\<exists>b. net s (nreq (trace s)) = Reply 429 b))"
  shows "\<exists>s'. api_get_loop (Suc m) ep ps retries a s = (surfaced (net s (nreq (trace s))), s')
           \<and> trace s' = trace s @ [Delay 500 1500, Net (ApiGet ep ps) (csrf_header s)]"
proof (cases "net s (nreq (trace s))")
  case Failed
  then show ?thesis
    by (simp add: api_get_loop.simps(2) io_bind_def io_try_def http_def surfaced_def io_raise_def log_def emit_def)
next
  case (Reply code body)
  with assms have "\<not> (int a < retries \<and> code = 429)" by simp
  with Reply show ?thesis
    by (cases body)
       (auto simp: api_get_loop.simps(2) io_bind_def io_try_def http_def surfaced_def io_raise_def
          io_ret_def log_def r_json_def emit_def)
qed

lemma api_get_retry:
  assumes "\<forall>i<k. \<exists>b. net s (nreq (trace s) + i) = Reply 429 b"
    and "int k \<le> retries"
    and "int k < retries \<longrightarrow> (\<forall>b. net s (nreq (trace s) + k) \<noteq> Reply 429 b)"
  shows "\<exists>s'. api_get ep ps retries s = (surfaced (net s (nreq (trace s) + k)), s')
           \<and> trace s' = trace s @ backoff_rounds (ApiGet ep ps) (csrf_header (snd (refresh_csrf s))) 0 k
                           @ [Delay 500 1500, Net (ApiGet ep ps) (csrf_header (snd (refresh_csrf s)))]"
proof -
  obtain t h where r: "refresh_csrf s = (Inr (), s\<lparr>cookies := dedupe_csrf (cookies s), csrf_token := t, csrf_header := h\<rparr>)"
    using refresh_csrf_upd by blast
  define s0 where "s0 = s\<lparr>cookies := dedupe_csrf (cookies s), csrf_token := t, csrf_header := h\<rparr>"
  define m where "m = nat retries - k"
  have n: "nat (retries + 1) = k + Suc m" using assms(2) by (simp add: m_def)
  have s0: "trace s0 = trace s" "net s0 = net s" by (simp_all add: s0_def)
  have "\<forall>i<k. \<exists>b. net s0 (nreq (trace s0) + i) = Reply 429 b" using assms(1) by (simp add: s0)
  moreover have "int (0 + k) \<le> retries" using assms(2) by simp
  ultimately obtain s1 where s1: "api_get_loop (k + Suc m) ep ps retries 0 s0 = api_get_loop (Suc m) ep ps retries (0 + k) s1"
      "trace s1 = trace s0 @ backoff_rounds (ApiGet ep ps) (csrf_header s0) 0 k" "net s1 = net s0" "csrf_header s1 = csrf_header s0"
    using api_get_loop_429[of k s0 0 retries m ep ps] by blast
  have "\<not> (int k < retries \<and> (\<exists>b. net s1 (nreq (trace s1)) = Reply 429 b))"
    using assms(3) by (simp add: s1 s0)
  then obtain s2 where s2: "api_get_loop (Suc m) ep ps retries k s1 = (surfaced (net s1 (nreq (trace s1))), s2)"
      "trace s2 = trace s1 @ [Delay 500 1500, Net (ApiGet ep ps) (csrf_header s1)]"
    using api_get_loop_last[of k retries s1 m ep ps] by blast
  have "api_get ep ps retries s = api_get_loop (k + Suc m) ep ps retries 0 s0"
    by (simp add: api_get_def io_bind_def r n s0_def)
  with s1 s2 show ?thesis
    by (intro exI[of _ s2]) (simp add: s0 r, simp add: s0_def)
qed

lemma api_post_loop_429:
  assumes "\<forall>i<k. \<exists>b. net s (nreq (trace s) + i) = Reply 429 b"
    and "int (a + k) \<le> retries"
  shows "\<exists>s'. api_post_loop (k + Suc m) ep retries a s = api_post_loop (Suc m) ep retries (a + k) s'
           \<and> trace s' = trace s @ backoff_rounds (ApiPost ep) (csrf_header s) a k
           \<and> net s' = net s \<and> csrf_header s' = csrf_header s"
  using assms
proof (induction k arbitrary: s a)
  case 0
  show ?case by (rule exI[of _ s]) simp
next
  case (Suc k)
  from Suc.prems(1) obtain b where b: "net s (nreq (trace s)) = Reply 429 b"
    by (metis add.right_neutral zero_less_Suc)
  define s1 where "s1 = s\<lparr>trace := trace s @ [Delay 500 1500, Net (ApiPost ep) (csrf_header s), Sleep (30 * (a + 1))],
                          logs := logs s @ [(Error, ''API POST: HTTP''), (Warning, ''Rate limit (429)'')]\<rparr>"
  have lt: "int a < retries" using Suc.prems(2) by simp
  have step: "api_post_loop (Suc k + Suc m) ep retries a s = api_post_loop (k + Suc m) ep retries (a + 1) s1"
    using b lt by (simp add: api_post_loop.simps(2) io_bind_def io_try_def http_def is_http_error_def s1_def emit_def log_def)
  have "\<forall>i<k. \<exists>b. net s1 (nreq (trace s1) + i) = Reply 429 b"
    using Suc.prems(1) by (auto simp: s1_def)
  moreover have "int (a + 1 + k) \<le> retries" using Suc.prems(2) by simp
  ultimately obtain s' where s': "api_post_loop (k + Suc m) ep retries (a + 1) s1 = api_post_loop (Suc m) ep retries (a + 1 + k) s'"
      "trace s' = trace s1 @ backoff_rounds (ApiPost ep) (csrf_header s1) (a + 1) k" "net s' = net s1" "csrf_header s' = csrf_header s1"
    using Suc.IH[of s1 "a + 1"] by blast
  show ?case
    apply (rule exI[of _ s'])
    using s' step by (simp add: backoff_rounds_Suc s1_def)
qed

lemma api_post_loop_last:
  assumes "\<not> (int a < retries \<and> (\<exists>b. net s (nreq (trace s)) = Reply 429 b))"
  shows "\<exists>s'. api_post_loop (Suc m) ep retries a s = (surfaced (net s (nreq (trace s))), s')
           \<and> trace s' = trace s @ [Delay 500 1500, Net (ApiPost ep) (csrf_header s)]"
proof (cases "net s (nreq (trace s))")
  case Failed
  then show ?thesis
    by (simp add: api_post_loop.simps(2) io_bind_def io_try_def http_def surfaced_def io_raise_def log_def emit_def)
next
  case (Reply code body)
  with assms have "\<not> (int a < retries \<and> code = 429)" by simp
  with Reply show ?thesis
    by (cases body)
       (auto simp: api_post_loop.simps(2) io_bind_def io_try_def http_def surfaced_def io_raise_def
          io_ret_def log_def r_json_def emit_def)
qed

lemma api_post_retry:
  assumes "\<forall>i<k. \<exists>b. net s (nreq (trace s) + i) = Reply 429 b"
    and "int k \<le> retries"
    and "int k < retries \<longrightarrow> (\<forall>b. net s (nreq (trace s) + k) \<noteq> Reply 429 b)"
  shows "\<exists>s'. api_post ep retries s = (surfaced (net s (nreq (trace s) + k)), s')
           \<and> trace s' = trace s @ backoff_rounds (ApiPost ep) (csrf_header (snd (refresh_csrf s))) 0 k
                           @ [Delay 500 1500, Net (ApiPost ep) (csrf_header (snd (refresh_csrf s)))]"
proof -
  obtain t h where r: "refresh_csrf s = (Inr (), s\<lparr>cookies := dedupe_csrf (cookies s), csrf_token := t, csrf_header := h\<rparr>)"
    using refresh_csrf_upd by blast
  define s0 where "s0 = s\<lparr>cookies := dedupe_csrf (cookies s), csrf_token := t, csrf_header := h\<rparr>"
  define m where "m = nat retries - k"
  have n: "nat (retries + 1) = k + Suc m" using assms(2) by (simp add: m_def)
  have s0: "trace s0 = trace s" "net s0 = net s" by (simp_all add: s0_def)
  have "\<forall>i<k. \<exists>b. net s0 (nreq (trace s0) + i) = Reply 429 b" using assms(1) by (simp add: s0)
  moreover have "int (0 + k) \<le> retries" using assms(2) by simp
  ultimately obtain s1 where s1: "api_post_loop (k + Suc m) ep retries 0 s0 = api_post_loop (Suc m) ep retries (0 + k) s1"
      "trace s1 = trace s0 @ backoff_rounds (ApiPost ep) (csrf_header s0) 0 k" "net s1 = net s0" "csrf_header s1 = csrf_header s0"
    using api_post_loop_429[of k s0 0 retries m ep] by blast
  have "\<not> (int k < retries \<and> (\<exists>b. net s1 (nreq (trace s1)) = Reply 429 b))"
    using assms(3) by (simp add: s1 s0)
  then obtain s2 where s2: "api_post_loop (Suc m) ep retries k s1 = (surfaced (net s1 (nreq (trace s1))), s2)"
      "trace s2 = trace s1 @ [Delay 500 1500, Net (ApiPost ep) (csrf_header s1)]"
    using api_post_loop_last[of k retries s1 m ep] by blast
  have "api_post ep retries s = api_post_loop (k + Suc m) ep retries 0 s0"
    by (simp add: api_post_def io_bind_def r n s0_def)
  with s1 s2 show ?thesis
    by (intro exI[of _ s2]) (simp add: s0 r, simp add: s0_def)
qed

lemma web_post_once:
  "\<exists>s'. web_post path s = (surfaced (net s (nreq (trace s))), s')
     \<and> trace s' = trace s @ [Net (WebPost path) (csrf_header (snd (refresh_csrf s)))]"
proof -
  obtain t h where r: "refresh_csrf s = (Inr (), s\<lparr>cookies := dedupe_csrf (cookies s), csrf_token := t, csrf_header := h\<rparr>)"
    using refresh_csrf_upd by blast
  show ?thesis
  proof (cases "net s (nreq (trace s))")
    case Failed
    then show ?thesis
      by (simp add: web_post_def io_bind_def io_try_def http_def surfaced_def io_raise_def log_def r)
  next
    case (Reply code body)
    then show ?thesis
      by (cases body)
         (auto simp: web_post_def io_bind_def io_try_def http_def surfaced_def io_raise_def
            io_ret_def log_def r_json_def r)
  qed
qed

section \<open>C1: retries on HTTP 429\<close>

text \<open>
  C1 (as amended): a versioned-API call (\<^verbatim>\<open>_api_get\<close>, \<^verbatim>\<open>_api_post\<close>) whose first \<open>k\<close>
  answers are 429, with \<open>k\<close> at most the retry bound, sends \<open>k + 1\<close> requests, sleeps
  thirty seconds times the attempt number after each of the first \<open>k\<close>, and gives the
  caller what the last answer amounts to: the decoded body, or the error when the answer
  is an error or the bound is used up. A legacy web-form call (\<^verbatim>\<open>_web_post\<close>) sends one
  request and gives the caller what its answer amounts to, 429 included, without a retry.
\<close>

theorem transport_retry_429:
  assumes "\<forall>i<k. \<exists>b. net s (nreq (trace s) + i) = Reply 429 b"
    and "int k \<le> retries"
    and "int k < retries \<longrightarrow> (\<forall>b. net s (nreq (trace s) + k) \<noteq> Reply 429 b)"
  shows "(\<exists>s'. api_get ep ps retries s = (surfaced (net s (nreq (trace s) + k)), s')
            \<and> trace s' = trace s @ backoff_rounds (ApiGet ep ps) (csrf_header (snd (refresh_csrf s))) 0 k
                            @ [Delay 500 1500, Net (ApiGet ep ps) (csrf_header (snd (refresh_csrf s)))])
       \<and> (\<exists>s'. api_post ep retries s = (surfaced (net s (nreq (trace s) + k)), s')
            \<and> trace s' = trace s @ backoff_rounds (ApiPost ep) (csrf_header (snd (refresh_csrf s))) 0 k
                            @ [Delay 500 1500, Net (ApiPost ep) (csrf_header (snd (refresh_csrf s)))])
       \<and> (\<exists>s'. web_post path s = (surfaced (net s (nreq (trace s))), s')
            \<and> trace s' = trace s @ [Net (WebPost path) (csrf_header (snd (refresh_csrf s)))])"
  using api_get_retry[OF assms] api_post_retry[OF assms] web_post_once by blast

lemma refresh_csrf_no_cookies: "cookies s = [] \<Longrightarrow> refresh_csrf s = (Inr (), s)"
  by (cases s) (simp add: refresh_csrf_def dedupe_csrf_def jar_get_def)

theorem transport_retry_429_witness:
  "fst (api_get [Lit ''feed/timeline/''] [] 2 always_429) = Inl (HTTPError 429)
   \<and> trace (snd (api_get [Lit ''feed/timeline/''] [] 2 always_429)) =
       [Delay 500 1500, Net (ApiGet [Lit ''feed/timeline/''] []) None, Sleep 30,
        Delay 500 1500, Net (ApiGet [Lit ''feed/timeline/''] []) None, Sleep 60,
        Delay 500 1500, Net (ApiGet [Lit ''feed/timeline/''] []) None]"
proof -
  have "\<forall>i<2. \<exists>b. net always_429 (nreq (trace always_429) + i) = Reply 429 b"
    by (simp add: always_429_def)
  moreover have "int 2 \<le> 2" by simp
  moreover have "int 2 < 2 \<longrightarrow> (\<forall>b. net always_429 (nreq (trace always_429) + 2) \<noteq> Reply 429 b)"
    by simp
  ultimately obtain s' where
    "api_get [Lit ''feed/timeline/''] [] 2 always_429 =
       (surfaced (net always_429 (nreq (trace always_429) + 2)), s')"
    "trace s' = trace always_429
       @ backoff_rounds (ApiGet [Lit ''feed/timeline/''] []) (csrf_header (snd (refresh_csrf always_429))) 0 2
       @ [Delay 500 1500, Net (ApiGet [Lit ''feed/timeline/''] []) (csrf_header (snd (refresh_csrf always_429)))]"
    using transport_retry_429[where k = 2 and s = always_429 and retries = 2
        and ep = "[Lit ''feed/timeline/'']" and ps = "[]" and path = "[]"]
    by blast
  then show ?thesis
    by (simp add: always_429_def surfaced_def is_http_error_def numeral_2_eq_2 backoff_rounds_Suc
          init_state_def refresh_csrf_no_cookies)
qed

theorem web_post_429_not_retried:
  "fst (web_post [Lit ''/web/likes/1/like/''] once_429) = Inl (HTTPError 429)
   \<and> trace (snd (web_post [Lit ''/web/likes/1/like/''] once_429)) =
       [Net (WebPost [Lit ''/web/likes/1/like/'']) None]
   \<and> fst (api_get [Lit ''feed/timeline/''] [] 2 once_429) = Inr (JObj [(''status'', JStr ''ok'')])"
proof -
  have w: "web_post [Lit ''/web/likes/1/like/''] once_429 =
        (Inl (HTTPError 429),
         once_429\<lparr>trace := [Net (WebPost [Lit ''/web/likes/1/like/'']) None],
                   logs := [(Error, ''WEB POST'')]\<rparr>)"
    by (simp add: web_post_def once_429_def io_bind_def io_try_def http_def is_http_error_def
          io_raise_def log_def init_state_def refresh_csrf_no_cookies)
  have g: "fst (api_get [Lit ''feed/timeline/''] [] 2 once_429) = Inr (JObj [(''status'', JStr ''ok'')])"
    by (simp add: api_get_def once_429_def io_bind_def io_try_def http_def is_http_error_def
          io_raise_def io_ret_def log_def emit_def r_json_def numeral_3_eq_3 api_get_loop.simps(2)
          init_state_def refresh_csrf_no_cookies)
  show ?thesis using w g by simp
qed

section \<open>C6: the CSRF header\<close>

lemma dedupe_csrf_others:
  "filter (\<lambda>c. \<not> is_csrf c) (dedupe_csrf jar) = filter (\<lambda>c. \<not> is_csrf c) jar"
proof (cases "length (filter is_csrf jar) > 1")
  case False
  then show ?thesis by (simp add: dedupe_csrf_small)
next
  case True
  have "\<And>x b. b \<in> set (butlast (filter is_csrf jar)) \<Longrightarrow> is_csrf b"
    by (auto dest: in_set_butlastD)
  then have "\<And>x. \<not> is_csrf x \<Longrightarrow> \<forall>b\<in>set (butlast (filter is_csrf jar)). \<not> same_key x b"
    by (auto simp: same_key_def is_csrf_def)
  then show ?thesis
    using True by (auto simp: dedupe_csrf_def fold_jar_clear intro: filter_cong)
qed

lemma api_get_loop_headers:
  "\<exists>es. trace (snd (api_get_loop n ep ps retries a s)) = trace s @ es
     \<and> (\<forall>rq h. Net rq h \<in> set es \<longrightarrow> h = csrf_header s)"
proof (induction n arbitrary: s a)
  case 0
  show ?case by (simp add: io_ret_def)
next
  case (Suc n)
  show ?case
  proof (cases "net s (nreq (trace s))")
    case Failed
    then show ?thesis
      by (simp add: api_get_loop.simps(2) io_bind_def io_try_def http_def io_raise_def log_def emit_def)
  next
    case (Reply code body)
    show ?thesis
    proof (cases "code = 429 \<and> int a < retries")
      case True
      define s1 where "s1 = s\<lparr>logs := logs s @ [(Error, ''API GET: HTTP''), (Warning, ''Rate limit (429)'')],
                          trace := trace s @ [Delay 500 1500, Net (ApiGet ep ps) (csrf_header s), Sleep (30 * (a + 1))]\<rparr>"
      have step: "api_get_loop (Suc n) ep ps retries a s = api_get_loop n ep ps retries (a + 1) s1"
        using Reply True
        by (simp add: api_get_loop.simps(2) io_bind_def io_try_def http_def is_http_error_def s1_def emit_def log_def)
      from Suc.IH[of "a + 1" s1] obtain es where
        es: "trace (snd (api_get_loop n ep ps retries (a + 1) s1)) = trace s1 @ es"
            "\<forall>rq h. Net rq h \<in> set es \<longrightarrow> h = csrf_header s1"
        by blast
      show ?thesis
        apply (rule exI[of _ "[Delay 500 1500, Net (ApiGet ep ps) (csrf_header s), Sleep (30 * (a + 1))] @ es"])
        using es step by (auto simp: s1_def)
    next
      case False
      with Reply show ?thesis
        by (cases body)
           (auto simp: api_get_loop.simps(2) io_bind_def io_try_def http_def io_raise_def
              io_ret_def log_def r_json_def emit_def)
    qed
  qed
qed

lemma api_get_headers:
  "\<exists>es. trace (snd (api_get ep ps retries s)) = trace s @ es
     \<and> (\<forall>rq h. Net rq h \<in> set es \<longrightarrow> h = csrf_header (snd (refresh_csrf s)))"
proof -
  obtain t h where r: "refresh_csrf s = (Inr (), s\<lparr>cookies := dedupe_csrf (cookies s), csrf_token := t, csrf_header := h\<rparr>)"
    using refresh_csrf_upd by blast
  define s0 where "s0 = s\<lparr>cookies := dedupe_csrf (cookies s), csrf_token := t, csrf_header := h\<rparr>"
  have "api_get ep ps retries s = api_get_loop (nat (retries + 1)) ep ps retries 0 s0"
    by (simp add: api_get_def io_bind_def r s0_def)
  moreover have "trace s0 = trace s" "csrf_header s0 = csrf_header (snd (refresh_csrf s))"
    by (simp_all add: s0_def r)
  ultimately show ?thesis
    using api_get_loop_headers[of "nat (retries + 1)" ep ps retries 0 s0] by simp
qed

lemma api_post_loop_headers:
  "\<exists>es. trace (snd (api_post_loop n ep retries a s)) = trace s @ es
     \<and> (\<forall>rq h. Net rq h \<in> set es \<longrightarrow> h = csrf_header s)"
proof (induction n arbitrary: s a)
  case 0
  show ?case by (simp add: io_ret_def)
next
  case (Suc n)
  show ?case
  proof (cases "net s (nreq (trace s))")
    case Failed
    then show ?thesis
      by (simp add: api_post_loop.simps(2) io_bind_def io_try_def http_def io_raise_def log_def emit_def)
  next
    case (Reply code body)
    show ?thesis
    proof (cases "code = 429 \<and> int a < retries")
      case True
      define s1 where "s1 = s\<lparr>logs := logs s @ [(Error, ''API POST: HTTP''), (Warning, ''Rate limit (429)'')],
                          trace := trace s @ [Delay 500 1500, Net (ApiPost ep) (csrf_header s), Sleep (30 * (a + 1))]\<rparr>"
      have step: "api_post_loop (Suc n) ep retries a s = api_post_loop n ep retries (a + 1) s1"
        using Reply True
        by (simp add: api_post_loop.simps(2) io_bind_def io_try_def http_def is_http_error_def s1_def emit_def log_def)
      from Suc.IH[of "a + 1" s1] obtain es where
        es: "trace (snd (api_post_loop n ep retries (a + 1) s1)) = trace s1 @ es"
            "\<forall>rq h. Net rq h \<in> set es \<longrightarrow> h = csrf_header s1"
        by blast
      show ?thesis
        apply (rule exI[of _ "[Delay 500 1500, Net (ApiPost ep) (csrf_header s), Sleep (30 * (a + 1))] @ es"])
        using es step by (auto simp: s1_def)
    next
      case False
      with Reply show ?thesis
        by (cases body)
           (auto simp: api_post_loop.simps(2) io_bind_def io_try_def http_def io_raise_def
              io_ret_def log_def r_json_def emit_def)
    qed
  qed
qed

lemma api_post_headers:
  "\<exists>es. trace (snd (api_post ep retries s)) = trace s @ es
     \<and> (\<forall>rq h. Net rq h \<in> set es \<longrightarrow> h = csrf_header (snd (refresh_csrf s)))"
proof -
  obtain t h where r: "refresh_csrf s = (Inr (), s\<lparr>cookies := dedupe_csrf (cookies s), csrf_token := t, csrf_header := h\<rparr>)"
    using refresh_csrf_upd by blast
  define s0 where "s0 = s\<lparr>cookies := dedupe_csrf (cookies s), csrf_token := t, csrf_header := h\<rparr>"
  have "api_post ep retries s = api_post_loop (nat (retries + 1)) ep retries 0 s0"
    by (simp add: api_post_def io_bind_def r s0_def)
  moreover have "trace s0 = trace s" "csrf_header s0 = csrf_header (snd (refresh_csrf s))"
    by (simp_all add: s0_def r)
  ultimately show ?thesis
    using api_post_loop_headers[of "nat (retries + 1)" ep retries 0 s0] by simp
qed

lemma refresh_csrf_header:
  "\<forall>c\<in>set (cookies (snd (refresh_csrf s))). is_csrf c \<and> truthy (c_value c) \<longrightarrow>
     csrf_header (snd (refresh_csrf s)) = Some (c_value c) \<and> csrf_token (snd (refresh_csrf s)) = c_value c"
proof (cases "filter is_csrf (dedupe_csrf (cookies s))")
  case Nil
  then have "\<forall>c\<in>set (dedupe_csrf (cookies s)). \<not> is_csrf c"
    by (simp add: filter_empty_conv)
  with Nil show ?thesis by (simp add: refresh_csrf_eq)
next
  case (Cons c cs)
  have "length (filter is_csrf (dedupe_csrf (cookies s))) \<le> 1"
    by (rule dedupe_csrf_at_most_one)
  with Cons have cs: "filter is_csrf (dedupe_csrf (cookies s)) = [c]" by simp
  then have "set (filter is_csrf (dedupe_csrf (cookies s))) = {c}" by simp
  then have only: "\<forall>x\<in>set (dedupe_csrf (cookies s)). is_csrf x \<longrightarrow> x = c"
    by auto
  show ?thesis using cs only by (auto simp: refresh_csrf_eq)
qed

lemma refresh_csrf_unchanged:
  "\<not> (\<exists>c\<in>set (cookies (snd (refresh_csrf s))). is_csrf c \<and> truthy (c_value c)) \<Longrightarrow>
     csrf_header (snd (refresh_csrf s)) = csrf_header s \<and> csrf_token (snd (refresh_csrf s)) = csrf_token s"
proof (cases "filter is_csrf (dedupe_csrf (cookies s))")
  case Nil
  then show ?thesis by (simp add: refresh_csrf_eq)
next
  case (Cons c cs)
  assume a: "\<not> (\<exists>c\<in>set (cookies (snd (refresh_csrf s))). is_csrf c \<and> truthy (c_value c))"
  from Cons have "c \<in> set (filter is_csrf (dedupe_csrf (cookies s)))" by simp
  then have c: "c \<in> set (dedupe_csrf (cookies s))" "is_csrf c" by auto
  have "cookies (snd (refresh_csrf s)) = dedupe_csrf (cookies s)"
    using Cons by (simp add: refresh_csrf_eq)
  with a c have "\<not> truthy (c_value c)" by auto
  with Cons show ?thesis by (simp add: refresh_csrf_eq)
qed

text \<open>
  C6 (as amended): every transport-layer call (\<^verbatim>\<open>_api_get\<close>, \<^verbatim>\<open>_api_post\<close>, \<^verbatim>\<open>_web_post\<close>)
  first refreshes the CSRF state from the cookie jar, and each request of the call carries
  the header as refreshed. The refresh never raises and leaves at most one CSRF cookie in
  the jar: of several, all but the last one the jar yields are removed (in a jar with one
  cookie per key exactly that last one stays), the other cookies stay as they are. The jar
  yields its cookies in the order in which their domains, paths and names were first
  inserted, so the cookie that stays need not be the one set most recently. When the
  remaining CSRF cookie has a non-empty value, header and stored token carry that value;
  when no CSRF cookie with a non-empty value is in the jar, header and token stay as they
  were.
\<close>

theorem refresh_csrf_before_call:
  "fst (refresh_csrf s) = Inr ()
   \<and> length (filter is_csrf (cookies (snd (refresh_csrf s)))) \<le> 1
   \<and> filter (\<lambda>c. \<not> is_csrf c) (cookies (snd (refresh_csrf s))) = filter (\<lambda>c. \<not> is_csrf c) (cookies s)
   \<and> (distinct (map cookie_key (cookies s)) \<and> filter is_csrf (cookies s) \<noteq> [] \<longrightarrow>
        filter is_csrf (cookies (snd (refresh_csrf s))) = [last (filter is_csrf (cookies s))])
   \<and> (\<forall>c\<in>set (cookies (snd (refresh_csrf s))). is_csrf c \<and> truthy (c_value c) \<longrightarrow>
        csrf_header (snd (refresh_csrf s)) = Some (c_value c)
        \<and> csrf_token (snd (refresh_csrf s)) = c_value c)
   \<and> (\<not> (\<exists>c\<in>set (cookies (snd (refresh_csrf s))). is_csrf c \<and> truthy (c_value c)) \<longrightarrow>
        csrf_header (snd (refresh_csrf s)) = csrf_header s
        \<and> csrf_token (snd (refresh_csrf s)) = csrf_token s)
   \<and> (\<exists>es. trace (snd (api_get ep ps retries s)) = trace s @ es
         \<and> (\<forall>rq h. Net rq h \<in> set es \<longrightarrow> h = csrf_header (snd (refresh_csrf s))))
   \<and> (\<exists>es. trace (snd (api_post ep retries s)) = trace s @ es
         \<and> (\<forall>rq h. Net rq h \<in> set es \<longrightarrow> h = csrf_header (snd (refresh_csrf s))))
   \<and> trace (snd (web_post path s)) = trace s @ [Net (WebPost path) (csrf_header (snd (refresh_csrf s)))]"
proof -
  obtain t h where r: "refresh_csrf s = (Inr (), s\<lparr>cookies := dedupe_csrf (cookies s), csrf_token := t, csrf_header := h\<rparr>)"
    using refresh_csrf_upd by blast
  have c: "cookies (snd (refresh_csrf s)) = dedupe_csrf (cookies s)" by (simp add: r)
  have 1: "fst (refresh_csrf s) = Inr ()" by (simp add: r)
  have 2: "length (filter is_csrf (cookies (snd (refresh_csrf s)))) \<le> 1"
    unfolding c by (rule dedupe_csrf_at_most_one)
  have 3: "filter (\<lambda>c. \<not> is_csrf c) (cookies (snd (refresh_csrf s))) = filter (\<lambda>c. \<not> is_csrf c) (cookies s)"
    unfolding c by (rule dedupe_csrf_others)
  have 4: "distinct (map cookie_key (cookies s)) \<and> filter is_csrf (cookies s) \<noteq> [] \<longrightarrow>
        filter is_csrf (cookies (snd (refresh_csrf s))) = [last (filter is_csrf (cookies s))]"
    unfolding c using dedupe_csrf_keeps_last[of "cookies s"]
    by (simp add: cookie_key_def[abs_def])
  have 8: "trace (snd (web_post path s)) = trace s @ [Net (WebPost path) (csrf_header (snd (refresh_csrf s)))]"
    using web_post_once[of path s] by auto
  show ?thesis
    using 1 2 3 4 refresh_csrf_header[of s] refresh_csrf_unchanged[of s] api_get_headers[of ep ps retries s]
      api_post_headers[of ep retries s] 8
    by blast
qed

theorem refresh_csrf_before_call_witness:
  "cookies (snd (refresh_csrf two_csrf)) =
     [Cookie ''.instagram.com'' ''/'' ''sessionid'' (JStr ''abc''),
      Cookie ''www.instagram.com'' ''/'' ''csrftoken'' (JStr ''second'')]
   \<and> csrf_header (snd (refresh_csrf two_csrf)) = Some (JStr ''second'')
   \<and> trace (snd (web_post [Lit ''/web/likes/1/like/''] two_csrf)) =
       [Net (WebPost [Lit ''/web/likes/1/like/'']) (Some (JStr ''second''))]"
proof -
  have j: "cookies (snd (refresh_csrf two_csrf)) =
     [Cookie ''.instagram.com'' ''/'' ''sessionid'' (JStr ''abc''),
      Cookie ''www.instagram.com'' ''/'' ''csrftoken'' (JStr ''second'')]"
    by (simp add: refresh_csrf_eq two_csrf_def init_state_def dedupe_csrf_def is_csrf_def
          jar_clear_def same_key_def)
  have "Cookie ''www.instagram.com'' ''/'' ''csrftoken'' (JStr ''second'') \<in> set (cookies (snd (refresh_csrf two_csrf)))"
    by (simp add: j)
  moreover have "is_csrf (Cookie ''www.instagram.com'' ''/'' ''csrftoken'' (JStr ''second''))
      \<and> truthy (c_value (Cookie ''www.instagram.com'' ''/'' ''csrftoken'' (JStr ''second'')))"
    by (simp add: is_csrf_def)
  ultimately have "csrf_header (snd (refresh_csrf two_csrf)) = Some (JStr ''second'')"
    using refresh_csrf_before_call[where s = two_csrf and ep = "[]" and ps = "[]" and retries = 0 and path = "[]"]
    by fastforce
  moreover have "trace (snd (web_post [Lit ''/web/likes/1/like/''] two_csrf)) =
      trace two_csrf @ [Net (WebPost [Lit ''/web/likes/1/like/'']) (csrf_header (snd (refresh_csrf two_csrf)))]"
    using refresh_csrf_before_call[where s = two_csrf and ep = "[]" and ps = "[]" and retries = 0
        and path = "[Lit ''/web/likes/1/like/'']"]
    by blast
  ultimately show ?thesis using j by (simp add: two_csrf_def init_state_def)
qed

theorem refresh_csrf_not_most_recent:
  "cookies reset_csrf =
     [Cookie ''.instagram.com'' ''/'' ''csrftoken'' (JStr ''third''),
      Cookie ''www.instagram.com'' ''/'' ''csrftoken'' (JStr ''second'')]
   \<and> cookies (snd (refresh_csrf reset_csrf)) =
       [Cookie ''www.instagram.com'' ''/'' ''csrftoken'' (JStr ''second'')]
   \<and> csrf_header (snd (refresh_csrf reset_csrf)) = Some (JStr ''second'')
   \<and> csrf_header (snd (refresh_csrf reset_csrf)) \<noteq> Some (JStr ''third'')
   \<and> cookies (snd (refresh_csrf empty_csrf)) = [Cookie ''.instagram.com'' ''/'' ''csrftoken'' (JStr [])]
   \<and> csrf_header (snd (refresh_csrf empty_csrf)) = Some (JStr ''old'')
   \<and> csrf_header (snd (refresh_csrf empty_csrf)) \<noteq> Some (JStr [])"
proof -
  have j: "cookies reset_csrf =
     [Cookie ''.instagram.com'' ''/'' ''csrftoken'' (JStr ''third''),
      Cookie ''www.instagram.com'' ''/'' ''csrftoken'' (JStr ''second'')]"
    by (simp add: reset_csrf_def init_state_def jar_set_cookie_def same_key_def insert_after_def)
  have a: "cookies (snd (refresh_csrf reset_csrf)) =
       [Cookie ''www.instagram.com'' ''/'' ''csrftoken'' (JStr ''second'')]"
    by (simp add: refresh_csrf_eq j dedupe_csrf_def is_csrf_def jar_clear_def same_key_def)
  have b: "csrf_header (snd (refresh_csrf reset_csrf)) = Some (JStr ''second'')"
    by (simp add: refresh_csrf_eq j dedupe_csrf_def is_csrf_def jar_clear_def same_key_def)
  have c: "cookies (snd (refresh_csrf empty_csrf)) = [Cookie ''.instagram.com'' ''/'' ''csrftoken'' (JStr [])]
   \<and> csrf_header (snd (refresh_csrf empty_csrf)) = Some (JStr ''old'')"
    by (simp add: refresh_csrf_eq empty_csrf_def init_state_def dedupe_csrf_def is_csrf_def)
  show ?thesis using j a b c by simp
qed

section \<open>C5: write operations\<close>

lemma field_is_Inl [simp]: "field_is k v (Inl e) = False"
  by (simp add: field_is_def)

lemma user_follow_result:
  "\<exists>s'. user_follow uid s =
     (Inr (field_is ''result'' ''following'' (surfaced (net s (nreq (trace s))))
           \<or> field_is ''status'' ''ok'' (surfaced (net s (nreq (trace s))))), s')"
proof -
  obtain s1 where w: "web_post [Lit ''/web/friendships/'', Fmt (JNum uid), Lit ''/follow/''] s =
      (surfaced (net s (nreq (trace s))), s1)"
    using web_post_once by blast
  show ?thesis
  proof (cases "surfaced (net s (nreq (trace s)))")
    case (Inl e)
    then show ?thesis using w
      by (simp add: user_follow_def io_try_def io_bind_def log_def io_ret_def)
  next
    case (Inr data)
    then show ?thesis using w
      by (cases data)
         (auto simp: user_follow_def io_try_def io_bind_def log_def io_ret_def io_raise_def lift_def field_is_def
            split: option.splits)
  qed
qed

lemma user_unfollow_result:
  "\<exists>s'. user_unfollow uid s = (Inr (field_is ''status'' ''ok'' (surfaced (net s (nreq (trace s))))), s')"
proof -
  obtain s1 where w: "web_post [Lit ''/web/friendships/'', Fmt (JNum uid), Lit ''/unfollow/''] s =
      (surfaced (net s (nreq (trace s))), s1)"
    using web_post_once by blast
  show ?thesis
  proof (cases "surfaced (net s (nreq (trace s)))")
    case (Inl e)
    then show ?thesis using w
      by (simp add: user_unfollow_def io_try_def io_bind_def log_def io_ret_def)
  next
    case (Inr data)
    then show ?thesis using w
      by (cases data)
         (auto simp: user_unfollow_def io_try_def io_bind_def log_def io_ret_def io_raise_def lift_def field_is_def
            split: option.splits)
  qed
qed

lemma media_like_result:
  "\<exists>s'. media_like media_id s = (Inr (field_is ''status'' ''ok'' (surfaced (net s (nreq (trace s))))), s')
     \<and> trace s' = trace s @ [Net (WebPost [Lit ''/web/likes/'', Fmt media_id, Lit ''/like/'']) (csrf_header (snd (refresh_csrf s)))]
     \<and> rate s' = rate s \<and> net s' = net s"
proof -
  obtain t h where r: "refresh_csrf s = (Inr (), s\<lparr>cookies := dedupe_csrf (cookies s), csrf_token := t, csrf_header := h\<rparr>)"
    using refresh_csrf_upd by blast
  show ?thesis
  proof (cases "net s (nreq (trace s))")
    case Failed
    then show ?thesis
      by (simp add: media_like_def web_post_def io_bind_def io_try_def http_def surfaced_def
            io_raise_def io_ret_def log_def r)
  next
    case (Reply code body)
    show ?thesis
    proof (cases body)
      case None
      with Reply show ?thesis
        by (simp add: media_like_def web_post_def io_bind_def io_try_def http_def surfaced_def
              io_raise_def io_ret_def log_def r_json_def r)
    next
      case (Some data)
      with Reply show ?thesis
        by (cases data)
           (auto simp: media_like_def web_post_def io_bind_def io_try_def http_def surfaced_def
              io_raise_def io_ret_def log_def r_json_def lift_def field_is_def r split: option.splits)
    qed
  qed
qed

lemma media_unlike_result:
  "\<exists>s'. media_unlike media_id s = (Inr (field_is ''status'' ''ok'' (surfaced (net s (nreq (trace s))))), s')"
proof -
  obtain s1 where w: "web_post [Lit ''/web/likes/'', Fmt media_id, Lit ''/unlike/''] s =
      (surfaced (net s (nreq (trace s))), s1)"
    using web_post_once by blast
  show ?thesis
  proof (cases "surfaced (net s (nreq (trace s)))")
    case (Inl e)
    then show ?thesis using w
      by (simp add: media_unlike_def io_try_def io_bind_def log_def io_ret_def)
  next
    case (Inr data)
    then show ?thesis using w
      by (cases data)
         (auto simp: media_unlike_def io_try_def io_bind_def log_def io_ret_def io_raise_def lift_def field_is_def
            split: option.splits)
  qed
qed

lemma media_comment_result:
  "\<exists>s'. media_comment media_id ctext s = (Inr (field_is ''status'' ''ok'' (surfaced (net s (nreq (trace s))))), s')"
proof -
  obtain s1 where w: "web_post [Lit ''/web/comments/'', Fmt media_id, Lit ''/add/''] s =
      (surfaced (net s (nreq (trace s))), s1)"
    using web_post_once by blast
  show ?thesis
  proof (cases "surfaced (net s (nreq (trace s)))")
    case (Inl e)
    then show ?thesis using w
      by (simp add: media_comment_def io_try_def io_bind_def log_def io_ret_def)
  next
    case (Inr data)
    then show ?thesis using w
      by (cases data)
         (auto simp: media_comment_def io_try_def io_bind_def log_def io_ret_def io_raise_def lift_def field_is_def
            split: option.splits)
  qed
qed

text \<open>
  C5: each write operation returns a boolean and never raises. The boolean is true
  exactly when the one answer to its request is not an HTTP error, decodes as a JSON
  object, and that object's \<open>status\<close> is \<open>ok\<close> (for follow: its \<open>result\<close> is
  \<open>following\<close> or its \<open>status\<close> is \<open>ok\<close>). Every other answer, an HTTP 200 with another
  body included, gives false.
\<close>

theorem write_ops_strict_success:
  "(\<exists>s'. user_follow uid s =
       (Inr (field_is ''result'' ''following'' (surfaced (net s (nreq (trace s))))
             \<or> field_is ''status'' ''ok'' (surfaced (net s (nreq (trace s))))), s'))
   \<and> (\<exists>s'. user_unfollow uid s = (Inr (field_is ''status'' ''ok'' (surfaced (net s (nreq (trace s))))), s'))
   \<and> (\<exists>s'. media_like media_id s = (Inr (field_is ''status'' ''ok'' (surfaced (net s (nreq (trace s))))), s'))
   \<and> (\<exists>s'. media_unlike media_id s = (Inr (field_is ''status'' ''ok'' (surfaced (net s (nreq (trace s))))), s'))
   \<and> (\<exists>s'. media_comment media_id ctext s = (Inr (field_is ''status'' ''ok'' (surfaced (net s (nreq (trace s))))), s'))"
  using user_follow_result[of uid s] user_unfollow_result[of uid s] media_like_result[of media_id s]
    media_unlike_result[of media_id s] media_comment_result[of media_id ctext s]
  by blast

theorem write_ops_strict_success_witness:
  "fst (media_like (JStr ''31'') always_fail_200) = Inr False
   \<and> fst (user_follow 7 always_fail_200) = Inr False"
proof -
  have "field_is ''status'' ''ok'' (surfaced (net always_fail_200 (nreq (trace always_fail_200)))) = False"
       "field_is ''result'' ''following'' (surfaced (net always_fail_200 (nreq (trace always_fail_200)))) = False"
    by (simp_all add: always_fail_200_def init_state_def surfaced_def is_http_error_def field_is_def)
  then show ?thesis
    using write_ops_strict_success[where s = always_fail_200 and media_id = "JStr ''31''" and uid = 7 and ctext = "[]"]
    by auto
qed

section \<open>C3: restoring a session\<close>

lemma io_bind_upd [simp]: "io_bind (\<lambda>s. (Inr x, f s)) k s = k x (f s)"
  by (simp add: io_bind_def)

lemma verify_session_eq:
  "verify_session s =
     (Inr (probe_succeeds (net s (nreq (trace s)))), s\<lparr>trace := trace s @ [Net ProbeGet (csrf_header s)]\<rparr>)"
proof (cases "net s (nreq (trace s))")
  case Failed
  then show ?thesis
    by (simp add: verify_session_def io_try_def io_bind_def http_def io_ret_def probe_succeeds_def)
next
  case (Reply code body)
  show ?thesis
  proof (cases body)
    case None
    with Reply show ?thesis
      by (simp add: verify_session_def io_try_def io_bind_def http_def io_ret_def io_raise_def
            r_json_def probe_succeeds_def)
  next
    case (Some data)
    with Reply show ?thesis
      by (cases data)
         (simp_all add: verify_session_def io_try_def io_bind_def http_def io_ret_def io_raise_def
            r_json_def probe_succeeds_def)
  qed
qed

lemma load_session_tail:
  "\<exists>s'. io_bind set_ajax_headers (\<lambda>_.
          io_bind verify_session (\<lambda>ok.
            if ok then
              io_bind (\<lambda>s. (Inr (), s\<lparr>is_authenticated := True\<rparr>)) (\<lambda>_.
              io_bind (log Info ''Sessao restaurada'') (\<lambda>_. io_ret True))
            else
              io_bind (log Warning ''Sessao expirada'') (\<lambda>_. io_ret False))) s
        = (Inr (probe_succeeds (net s (nreq (trace s)))), s')
      \<and> is_authenticated s' = (probe_succeeds (net s (nreq (trace s))) \<or> is_authenticated s)"
proof -
  obtain t h where r: "refresh_csrf s = (Inr (), s\<lparr>cookies := dedupe_csrf (cookies s), csrf_token := t, csrf_header := h\<rparr>)"
    using refresh_csrf_upd by blast
  show ?thesis
    by (simp add: set_ajax_headers_def io_bind_def[of refresh_csrf] io_bind_def[of verify_session]
          r verify_session_eq io_ret_def)
qed

lemma load_session_result:
  "\<exists>b s'. load_session fp s = (Inr b, s')
     \<and> (b \<longrightarrow> probe_succeeds (net s (nreq (trace s))) \<and> is_authenticated s')
     \<and> (\<not> b \<longrightarrow> is_authenticated s' = is_authenticated s)"
proof (cases "fs s fp")
  case Absent
  then show ?thesis by (auto simp: load_session_def)
next
  case Unreadable
  then show ?thesis
    by (auto simp: load_session_def io_try_def io_bind_def[of "read_json fp"] read_json_def io_ret_def)
next
  case Raw
  then show ?thesis
    by (auto simp: load_session_def io_try_def io_bind_def[of "read_json fp"] read_json_def io_ret_def)
next
  case (Parsed data)
  show ?thesis
  proof (cases "\<exists>kvs ckvs. data = JObj kvs \<and> dget kvs ''cookies'' (JObj []) = JObj ckvs")
    case False
    then have "(\<forall>kvs. data \<noteq> JObj kvs) \<or> (\<exists>kvs. data = JObj kvs \<and> (\<forall>ckvs. dget kvs ''cookies'' (JObj []) \<noteq> JObj ckvs))"
      by blast
    then show ?thesis
    proof
      assume "\<forall>kvs. data \<noteq> JObj kvs"
      then show ?thesis using Parsed
        by (cases data)
           (auto simp: load_session_def io_try_def io_bind_def[of "read_json fp"] read_json_def
              io_ret_def io_raise_def)
    next
      assume "\<exists>kvs. data = JObj kvs \<and> (\<forall>ckvs. dget kvs ''cookies'' (JObj []) \<noteq> JObj ckvs)"
      then obtain kvs where k: "data = JObj kvs" "\<forall>ckvs. dget kvs ''cookies'' (JObj []) \<noteq> JObj ckvs"
        by blast
      then show ?thesis using Parsed
        by (cases "dget kvs ''cookies'' (JObj [])")
           (auto simp: load_session_def io_try_def io_bind_def[of "read_json fp"] read_json_def
              io_ret_def io_raise_def dget_def)
    qed
  next
    case True
    then obtain kvs ckvs where k: "data = JObj kvs" "dget kvs ''cookies'' (JObj []) = JObj ckvs"
      by blast
    define s4 where "s4 = s\<lparr>cookies := fold (\<lambda>kv. jar_set (fst kv) (snd kv)) (dict_items ckvs) [],
        user_id := dget kvs ''user_id'' JNull, username := dget kvs ''username'' JNull,
        csrf_token := dget kvs ''csrf_token'' (JStr [])\<rparr>"
    obtain s' where t: "io_bind set_ajax_headers (\<lambda>_.
          io_bind verify_session (\<lambda>ok.
            if ok then
              io_bind (\<lambda>s. (Inr (), s\<lparr>is_authenticated := True\<rparr>)) (\<lambda>_.
              io_bind (log Info ''Sessao restaurada'') (\<lambda>_. io_ret True))
            else
              io_bind (log Warning ''Sessao expirada'') (\<lambda>_. io_ret False))) s4
        = (Inr (probe_succeeds (net s4 (nreq (trace s4)))), s')"
       "is_authenticated s' = (probe_succeeds (net s4 (nreq (trace s4))) \<or> is_authenticated s4)"
      using load_session_tail[of s4] by blast
    have "load_session fp s = (Inr (probe_succeeds (net s4 (nreq (trace s4)))), s')"
      using Parsed k t(1)
      by (simp add: load_session_def io_try_def io_bind_def[of "read_json fp"] read_json_def
            dget_def s4_def)
    moreover have "net s4 = net s" "trace s4 = trace s" "is_authenticated s4 = is_authenticated s"
      by (simp_all add: s4_def)
    ultimately show ?thesis using t(2) by auto
  qed
qed

text \<open>
  C3 (as amended): \<^verbatim>\<open>load_session\<close> never raises. When it returns true, the verification
  probe has succeeded and the authenticated flag is set; when it returns false, which it
  does whenever the probe does not succeed, the flag is left as it was. So on a client
  whose flag is false before the call, as a new client's is, a snapshot with an expired or
  tampered cookie jar leaves the flag false.
\<close>

theorem load_session_flag:
  "\<exists>b s'. load_session fp s = (Inr b, s')
     \<and> (b \<longrightarrow> probe_succeeds (net s (nreq (trace s))) \<and> is_authenticated s')
     \<and> (\<not> probe_succeeds (net s (nreq (trace s))) \<longrightarrow> \<not> b)
     \<and> (\<not> b \<longrightarrow> is_authenticated s' = is_authenticated s)
     \<and> (\<not> is_authenticated s \<and> \<not> probe_succeeds (net s (nreq (trace s))) \<longrightarrow> \<not> is_authenticated s')"
  using load_session_result[of fp s] by blast

theorem load_session_flag_witness:
  "fst (load_session ''./data/session.json'' expired_snapshot) = Inr False
   \<and> \<not> is_authenticated (snd (load_session ''./data/session.json'' expired_snapshot))"
proof -
  have "\<not> probe_succeeds (net expired_snapshot (nreq (trace expired_snapshot)))"
       "\<not> is_authenticated expired_snapshot"
    by (simp_all add: expired_snapshot_def init_state_def probe_succeeds_def)
  then show ?thesis
    using load_session_flag[of "''./data/session.json''" expired_snapshot] by auto
qed

theorem load_session_keeps_true_flag:
  "fst (load_session ''./data/session.json'' authenticated_expired_snapshot) = Inr False
   \<and> is_authenticated (snd (load_session ''./data/session.json'' authenticated_expired_snapshot))"
proof -
  have "\<not> probe_succeeds (net authenticated_expired_snapshot (nreq (trace authenticated_expired_snapshot)))"
       "is_authenticated authenticated_expired_snapshot"
    by (simp_all add: authenticated_expired_snapshot_def expired_snapshot_def init_state_def
          probe_succeeds_def)
  then show ?thesis
    using load_session_result[of "''./data/session.json''" authenticated_expired_snapshot] by auto
qed

section \<open>Uploads: what every run does\<close>

lemma extends_iff:
  "extends s s' \<longleftrightarrow> (\<exists>es ls. trace s' = trace s @ es \<and> logs s' = logs s @ ls) \<and> net s' = net s"
proof
  assume e: "extends s s'"
  have "trace s' = take (length (trace s)) (trace s') @ drop (length (trace s)) (trace s')"
       "logs s' = take (length (logs s)) (logs s') @ drop (length (logs s)) (logs s')"
    by simp_all
  with e show "(\<exists>es ls. trace s' = trace s @ es \<and> logs s' = logs s @ ls) \<and> net s' = net s"
    unfolding extends_def by metis
next
  assume "(\<exists>es ls. trace s' = trace s @ es \<and> logs s' = logs s @ ls) \<and> net s' = net s"
  then show "extends s s'" by (auto simp: extends_def)
qed

lemma extends_refl [simp]: "extends s s"
  by (simp add: extends_def)

lemma extends_trans: "extends s s1 \<Longrightarrow> extends s1 s2 \<Longrightarrow> extends s s2"
  unfolding extends_iff by (metis append.assoc)

lemma grows_ret [intro!, simp]: "grows (io_ret x)"
  by (simp add: grows_def io_ret_def)

lemma grows_raise [intro!, simp]: "grows (io_raise e)"
  by (simp add: grows_def io_raise_def)

lemma grows_lift [intro!, simp]: "grows (lift r)"
  by (simp add: grows_def lift_def)

lemma grows_emit [intro!, simp]: "grows (emit e)"
  by (simp add: grows_def emit_def extends_def)

lemma grows_log [intro!, simp]: "grows (log l m)"
  by (simp add: grows_def log_def extends_def)

lemma grows_http [intro!, simp]: "grows (http rq)"
  by (simp add: grows_def http_def extends_def Let_def split: reply.splits)

lemma grows_refresh_csrf [intro!, simp]: "grows refresh_csrf"
proof -
  have "extends s (snd (refresh_csrf s))" for s
    using refresh_csrf_upd[of s] by (auto simp: extends_def)
  then show ?thesis by (simp add: grows_def)
qed

lemma grows_bind [intro!]: "grows m \<Longrightarrow> (\<And>x. grows (k x)) \<Longrightarrow> grows (io_bind m k)"
  unfolding grows_def io_bind_def
  by (auto split: prod.splits sum.splits) (metis extends_trans snd_conv)+

lemma grows_try [intro!]: "grows m \<Longrightarrow> (\<And>e. grows (h e)) \<Longrightarrow> grows (io_try m h)"
  unfolding grows_def io_try_def
  by (auto split: prod.splits sum.splits) (metis extends_trans snd_conv)+

lemma grows_if [intro!]: "(b \<Longrightarrow> grows m) \<Longrightarrow> (\<not> b \<Longrightarrow> grows n) \<Longrightarrow> grows (if b then m else n)"
  by simp

lemma grows_case_prod [intro!]: "(\<And>a b. grows (f a b)) \<Longrightarrow> grows (case p of (a, b) \<Rightarrow> f a b)"
  by (cases p) simp

lemma grows_read_bytes [intro!, simp]: "grows (read_bytes p)"
  by (simp add: grows_def read_bytes_def split: fentry.splits)

lemma grows_extract_thumbnail [intro!, simp]: "grows (extract_thumbnail p)"
  by (simp add: grows_def extract_thumbnail_def extends_def Let_def split: ffmpeg_out.splits)

lemma grows_os_remove [intro!, simp]: "grows (os_remove p)"
  by (simp add: grows_def os_remove_def extends_def)

lemma grows_uploaded_status [intro!, simp]: "grows (uploaded_status body)"
  unfolding uploaded_status_def r_json_def by (cases body) auto

lemma grows_upload_photo_binary [intro!, simp]: "grows (upload_photo_binary p uid)"
  unfolding upload_photo_binary_def by auto

lemma grows_upload_video_binary_rest:
  "grows (\<lambda>s. (case r of (code, body) \<Rightarrow>
       if code = 200 then io_bind (uploaded_status body) (\<lambda>_. io_ret True)
       else io_bind (log Error ''Upload video falhou'') (\<lambda>_. io_ret False)) s)"
  by (cases r) auto

lemma grows_upload_video_binary [intro!, simp]: "grows (upload_video_binary p uid vi c st)"
  unfolding upload_video_binary_def by auto

lemma grows_upload_thumbnail [intro!, simp]: "grows (upload_thumbnail p uid th)"
proof -
  have rm: "grows (\<lambda>s. if path_exists x s then os_remove x s else (Inr (), s))" for x
    by (simp add: grows_def os_remove_def extends_def)
  show ?thesis
    unfolding upload_thumbnail_def Let_def
    by (auto intro!: rm split: option.splits)
qed

lemma grows_configure_result [intro!, simp]: "grows (configure_result what rm r)"
  unfolding configure_result_def r_json_def
  by (cases r) (auto split: option.splits)

section \<open>C9: uploads of a missing file\<close>

text \<open>
  C9: each of the five upload entry points, called with a path at which no file exists,
  returns \<^verbatim>\<open>None\<close> without raising; it logs the error and leaves the trace as it was,
  so no request is sent.
\<close>

theorem upload_missing_file:
  assumes "\<not> path_exists p s"
  shows "photo_upload t p cap s = (Inr None, s\<lparr>logs := logs s @ [(Error, ''Arquivo nao encontrado'')]\<rparr>)
       \<and> video_upload t p cap th s = (Inr None, s\<lparr>logs := logs s @ [(Error, ''Arquivo nao encontrado'')]\<rparr>)
       \<and> photo_upload_to_story t p cap s = (Inr None, s\<lparr>logs := logs s @ [(Error, ''Arquivo nao encontrado'')]\<rparr>)
       \<and> video_upload_to_story t p cap th s = (Inr None, s\<lparr>logs := logs s @ [(Error, ''Arquivo nao encontrado'')]\<rparr>)
       \<and> clip_upload t p cap th s = (Inr None, s\<lparr>logs := logs s @ [(Error, ''Arquivo nao encontrado'')]\<rparr>)
       \<and> trace (s\<lparr>logs := logs s @ [(Error, ''Arquivo nao encontrado'')]\<rparr>) = trace s"
  using assms
  by (simp add: photo_upload_def video_upload_def photo_upload_to_story_def
        video_upload_to_story_def clip_upload_def)

theorem upload_missing_file_witness:
  "photo_upload 0 ''missing.jpg'' ''hello'' init_state =
     (Inr None, init_state\<lparr>logs := [(Error, ''Arquivo nao encontrado'')]\<rparr>)
   \<and> clip_upload 0 ''missing.mp4'' ''hello'' None init_state =
     (Inr None, init_state\<lparr>logs := [(Error, ''Arquivo nao encontrado'')]\<rparr>)
   \<and> trace (init_state\<lparr>logs := [(Error, ''Arquivo nao encontrado'')]\<rparr>) = []"
proof -
  have "\<not> path_exists ''missing.jpg'' init_state" "\<not> path_exists ''missing.mp4'' init_state"
    by (simp_all add: path_exists_def init_state_def)
  then show ?thesis
    using upload_missing_file[of "''missing.jpg''" init_state 0 "''hello''" None]
      upload_missing_file[of "''missing.mp4''" init_state 0 "''hello''" None]
    by (simp add: init_state_def)
qed

section \<open>The steps of a video upload\<close>

lemma upload_video_binary_first:
  assumes "readable p s"
  shows "upload_video_binary p uid vi c st s =
     (case net s (nreq (trace s)) of
        Failed \<Rightarrow> (Inl RequestFailed, s\<lparr>trace := trace s @ [Net (RuploadVideoInit uid vi c st) (csrf_header s)]\<rparr>)
      | Reply c0 b0 \<Rightarrow>
          io_bind (http (RuploadVideoPost uid vi c st)) (\<lambda>(code, body).
            if code = 200 then io_bind (uploaded_status body) (\<lambda>_. io_ret True)
            else io_bind (log Error ''Upload video falhou'') (\<lambda>_. io_ret False))
            (s\<lparr>trace := trace s @ [Net (RuploadVideoInit uid vi c st) (csrf_header s)]\<rparr>))"
  using assms
  by (cases "fs s p")
     (simp_all add: upload_video_binary_def readable_def read_bytes_def
        io_bind_def[of "read_bytes p"] io_bind_def[of "http (RuploadVideoInit uid vi c st)"] http_def
        split: reply.splits)

lemma upload_video_binary_accepted:
  assumes "readable p s" "net s (nreq (trace s)) \<noteq> Failed" "accepted (net s (Suc (nreq (trace s))))"
  shows "upload_video_binary p uid vi c st s =
     (Inr True, s\<lparr>trace := trace s @ [Net (RuploadVideoInit uid vi c st) (csrf_header s),
                                      Net (RuploadVideoPost uid vi c st) (csrf_header s)]\<rparr>)"
proof -
  from assms(2) obtain c0 b0 where r0: "net s (nreq (trace s)) = Reply c0 b0"
    by (cases "net s (nreq (trace s))") auto
  from assms(3) obtain kvs where r1: "net s (Suc (nreq (trace s))) = Reply 200 (Some (JObj kvs))"
    by (auto simp: accepted_def split: reply.splits option.splits json.splits)
  show ?thesis
    using r0 r1
    by (simp add: upload_video_binary_first[OF assms(1)] io_bind_def http_def uploaded_status_def
          r_json_def io_ret_def lift_def)
qed

lemma upload_video_binary_rejected:
  assumes "readable p s" "net s (nreq (trace s)) \<noteq> Failed"
    and "net s (Suc (nreq (trace s))) = Reply code body" "code \<noteq> 200"
  shows "upload_video_binary p uid vi c st s =
     (Inr False, s\<lparr>trace := trace s @ [Net (RuploadVideoInit uid vi c st) (csrf_header s),
                                       Net (RuploadVideoPost uid vi c st) (csrf_header s)],
                   logs := logs s @ [(Error, ''Upload video falhou'')]\<rparr>)"
proof -
  from assms(2) obtain c0 b0 where r0: "net s (nreq (trace s)) = Reply c0 b0"
    by (cases "net s (nreq (trace s))") auto
  show ?thesis
    using r0 assms(3,4)
    by (simp add: upload_video_binary_first[OF assms(1)] io_bind_def http_def io_ret_def log_def)
qed

lemma thumb_name_nonempty [simp]: "rsplit_dot p @ ''_thumb.jpg'' \<noteq> []"
  by simp

lemma upload_thumbnail_extracted:
  assumes "ffmpeg s p (rsplit_dot p @ ''_thumb.jpg'') = FfWrote" "quiet (net s (nreq (trace s)))"
  shows "\<exists>s'. upload_thumbnail p uid None s = (Inr (), s')
           \<and> trace s' = trace s @ [Net (RuploadPhoto uid (rsplit_dot p @ ''_thumb.jpg'')) (csrf_header s)]
           \<and> net s' = net s \<and> logs s' = logs s @ (if accepted (net s (nreq (trace s))) then [] else [(Error, ''Upload foto falhou'')])"
proof -
  from assms(2) obtain code body where r: "net s (nreq (trace s)) = Reply code body"
    and q: "code \<noteq> 200 \<or> (\<exists>kvs. body = Some (JObj kvs))"
    by (auto simp: quiet_def split: reply.splits option.splits json.splits)
  show ?thesis
  proof (cases "code = 200")
    case True
    with q obtain kvs where "body = Some (JObj kvs)" by auto
    with True r assms(1) show ?thesis
      by (simp add: Let_def upload_thumbnail_def extract_thumbnail_def upload_photo_binary_def io_bind_def
            read_bytes_def http_def uploaded_status_def r_json_def io_ret_def lift_def path_exists_def
            os_remove_def accepted_def)
  next
    case False
    with r assms(1) show ?thesis
      by (simp add: Let_def upload_thumbnail_def extract_thumbnail_def upload_photo_binary_def io_bind_def
            read_bytes_def http_def io_ret_def log_def path_exists_def os_remove_def accepted_def
            split: option.splits json.splits)
  qed
qed

lemma configure_result_trace: "trace (snd (configure_result what rm r s)) = trace s"
proof (cases r)
  case (Pair code body)
  show ?thesis
  proof (cases body)
    case None
    with Pair show ?thesis
      by (simp add: configure_result_def r_json_def io_raise_def log_def io_ret_def io_bind_def)
  next
    case (Some j)
    show ?thesis
    proof (cases j)
      case (JObj kvs)
      with Pair Some show ?thesis
        by (cases "case map_of kvs ''media'' of None \<Rightarrow> JObj [] | Some v \<Rightarrow> v")
           (simp_all add: configure_result_def r_json_def io_raise_def log_def io_ret_def io_bind_def lift_def)
    qed (use Pair Some in \<open>simp_all add: configure_result_def r_json_def io_raise_def log_def io_ret_def io_bind_def lift_def\<close>)
  qed
qed

lemma configure_tail:
  "\<exists>x s'. io_bind (emit (Delay a b)) (\<lambda>_. io_bind refresh_csrf (\<lambda>_.
             io_bind (http (Configure sf uid cap)) (configure_result what rm))) s = (x, s')
     \<and> requests (trace s') = requests (trace s) @ [Configure sf uid cap]"
proof -
  obtain tk h where r: "refresh_csrf (s\<lparr>trace := trace s @ [Delay a b]\<rparr>) =
      (Inr (), s\<lparr>trace := trace s @ [Delay a b], cookies := dedupe_csrf (cookies s), csrf_token := tk, csrf_header := h\<rparr>)"
    using refresh_csrf_upd[of "s\<lparr>trace := trace s @ [Delay a b]\<rparr>"] by auto
  show ?thesis
  proof (cases "net s (nreq (trace s))")
    case Failed
    then show ?thesis
      by (simp add: io_bind_def[of refresh_csrf] io_bind_def[of "http (Configure sf uid cap)"] r http_def)
  next
    case (Reply code body)
    then show ?thesis
      using configure_result_trace[of what rm "(code, body)"]
      by (simp add: io_bind_def[of refresh_csrf] io_bind_def[of "http (Configure sf uid cap)"] r http_def
            prod_eq_iff)
  qed
qed

lemma configure_tail_published:
  assumes "published (net s (nreq (trace s)))"
  shows "\<exists>body s'. net s (nreq (trace s)) = Reply 200 (Some body)
     \<and> io_bind (emit (Delay a b)) (\<lambda>_. io_bind refresh_csrf (\<lambda>_.
             io_bind (http (Configure sf uid cap)) (configure_result what False))) s = (Inr (Some body), s')
     \<and> requests (trace s') = requests (trace s) @ [Configure sf uid cap]"
proof -
  obtain tk h where r: "refresh_csrf (s\<lparr>trace := trace s @ [Delay a b]\<rparr>) =
      (Inr (), s\<lparr>trace := trace s @ [Delay a b], cookies := dedupe_csrf (cookies s), csrf_token := tk, csrf_header := h\<rparr>)"
    using refresh_csrf_upd[of "s\<lparr>trace := trace s @ [Delay a b]\<rparr>"] by auto
  from assms obtain kvs where k: "net s (nreq (trace s)) = Reply 200 (Some (JObj kvs))"
      "map_of kvs ''status'' = Some (JStr ''ok'')"
    by (auto simp: published_def split: reply.splits option.splits json.splits)
  then show ?thesis
    by (simp add: io_bind_def[of refresh_csrf] io_bind_def[of "http (Configure sf uid cap)"] r http_def
          configure_result_def r_json_def io_ret_def lift_def)
qed

section \<open>C7: the order of a video upload\<close>

lemma video_pipeline_requests:
  assumes "readable p s"
    and "ffmpeg s p (rsplit_dot p @ ''_thumb.jpg'') = FfWrote"
    and "net s (nreq (trace s)) \<noteq> Failed"
    and "accepted (net s (nreq (trace s) + 1))"
    and "quiet (net s (nreq (trace s) + 2))"
  shows "\<exists>x s'. io_bind (upload_video_binary p uid vi c st) (\<lambda>ok.
             if \<not> ok then io_ret None
             else
               io_bind (upload_thumbnail p uid None) (\<lambda>_.
               io_bind (emit (Delay 3000 6000)) (\<lambda>_.
               io_bind refresh_csrf (\<lambda>_.
               io_bind (http (Configure sf uid cap)) (configure_result what rm))))) s = (x, s')
           \<and> requests (trace s') = requests (trace s) @
                [RuploadVideoInit uid vi c st, RuploadVideoPost uid vi c st,
                 RuploadPhoto uid (rsplit_dot p @ ''_thumb.jpg''), Configure sf uid cap]
           \<and> (published (net s (nreq (trace s) + 3)) \<and> \<not> rm \<longrightarrow>
                (\<exists>body. net s (nreq (trace s) + 3) = Reply 200 (Some body) \<and> x = Inr (Some body)))"
proof -
  define s2 where "s2 = s\<lparr>trace := trace s @ [Net (RuploadVideoInit uid vi c st) (csrf_header s),
                                      Net (RuploadVideoPost uid vi c st) (csrf_header s)]\<rparr>"
  have b: "upload_video_binary p uid vi c st s = (Inr True, s2)"
    using upload_video_binary_accepted[OF assms(1) assms(3)] assms(4) by (simp add: s2_def)
  have "ffmpeg s2 p (rsplit_dot p @ ''_thumb.jpg'') = FfWrote" "quiet (net s2 (nreq (trace s2)))"
    using assms(2,5) by (simp_all add: s2_def)
  then obtain s3 where t: "upload_thumbnail p uid None s2 = (Inr (), s3)"
      "trace s3 = trace s2 @ [Net (RuploadPhoto uid (rsplit_dot p @ ''_thumb.jpg'')) (csrf_header s2)]"
      "net s3 = net s2"
    using upload_thumbnail_extracted[of s2 p uid] by blast
  have n3: "net s3 (nreq (trace s3)) = net s (nreq (trace s) + 3)"
    by (simp add: t s2_def eval_nat_numeral)
  obtain x s' where c: "io_bind (emit (Delay 3000 6000)) (\<lambda>_. io_bind refresh_csrf (\<lambda>_.
             io_bind (http (Configure sf uid cap)) (configure_result what rm))) s3 = (x, s')"
      "requests (trace s') = requests (trace s3) @ [Configure sf uid cap]"
    using configure_tail[of 3000 6000 sf uid cap what rm s3] by blast
  have whole: "io_bind (upload_video_binary p uid vi c st) (\<lambda>ok.
             if \<not> ok then io_ret None
             else
               io_bind (upload_thumbnail p uid None) (\<lambda>_.
               io_bind (emit (Delay 3000 6000)) (\<lambda>_.
               io_bind refresh_csrf (\<lambda>_.
               io_bind (http (Configure sf uid cap)) (configure_result what rm))))) s = (x, s')"
    using b t(1) c(1)
    by (simp add: io_bind_def[of "upload_video_binary p uid vi c st"]
          io_bind_def[of "upload_thumbnail p uid None"])
  have rq: "requests (trace s') = requests (trace s) @
                [RuploadVideoInit uid vi c st, RuploadVideoPost uid vi c st,
                 RuploadPhoto uid (rsplit_dot p @ ''_thumb.jpg''), Configure sf uid cap]"
    by (simp add: c(2) t(2) s2_def)
  have pub: "published (net s (nreq (trace s) + 3)) \<and> \<not> rm \<longrightarrow>
                (\<exists>body. net s (nreq (trace s) + 3) = Reply 200 (Some body) \<and> x = Inr (Some body))"
  proof
    assume a: "published (net s (nreq (trace s) + 3)) \<and> \<not> rm"
    then have "published (net s3 (nreq (trace s3)))" by (simp add: n3)
    then obtain body s'' where "net s3 (nreq (trace s3)) = Reply 200 (Some body)"
      "io_bind (emit (Delay 3000 6000)) (\<lambda>_. io_bind refresh_csrf (\<lambda>_.
             io_bind (http (Configure sf uid cap)) (configure_result what False))) s3 = (Inr (Some body), s'')"
      using configure_tail_published[of s3 3000 6000 sf uid cap what] by blast
    with a c(1) show "\<exists>body. net s (nreq (trace s) + 3) = Reply 200 (Some body) \<and> x = Inr (Some body)"
      by (simp add: n3)
  qed
  show ?thesis using whole rq pub by blast
qed

lemma upload_video_binary_unserved:
  assumes "readable p s"
    and "\<not> (net s (nreq (trace s)) \<noteq> Failed \<and> accepted (net s (Suc (nreq (trace s)))))"
  shows "fst (upload_video_binary p uid vi c st s) \<noteq> Inr True
     \<and> (requests (trace (snd (upload_video_binary p uid vi c st s))) =
          requests (trace s) @ [RuploadVideoInit uid vi c st]
        \<or> requests (trace (snd (upload_video_binary p uid vi c st s))) =
          requests (trace s) @ [RuploadVideoInit uid vi c st, RuploadVideoPost uid vi c st])"
proof (cases "net s (nreq (trace s))")
  case Failed
  then show ?thesis by (simp add: upload_video_binary_first[OF assms(1)])
next
  case (Reply c0 b0)
  show ?thesis
  proof (cases "net s (Suc (nreq (trace s)))")
    case Failed
    with Reply show ?thesis
      by (simp add: upload_video_binary_first[OF assms(1)] io_bind_def http_def)
  next
    case r1: (Reply code body)
    show ?thesis
    proof (cases "code = 200")
      case False
      then show ?thesis
        using upload_video_binary_rejected[OF assms(1) _ r1, of uid vi c st] Reply by simp
    next
      case True
      with assms(2) Reply r1 have nb: "\<not> (\<exists>kvs. body = Some (JObj kvs))"
        by (auto simp: accepted_def)
      then show ?thesis
        using Reply r1 True
        by (cases body; cases "the body")
           (simp_all add: upload_video_binary_first[OF assms(1)] io_bind_def http_def uploaded_status_def
              r_json_def io_ret_def io_raise_def lift_def)
    qed
  qed
qed

lemma upload_thumbnail_sends:
  assumes "ffmpeg s p (rsplit_dot p @ ''_thumb.jpg'') = FfWrote"
  shows "requests (trace (snd (upload_thumbnail p uid None s))) =
           requests (trace s) @ [RuploadPhoto uid (rsplit_dot p @ ''_thumb.jpg'')]"
proof (cases "net s (nreq (trace s))")
  case Failed
  with assms show ?thesis
    by (simp add: Let_def upload_thumbnail_def extract_thumbnail_def upload_photo_binary_def io_bind_def
          read_bytes_def http_def)
next
  case (Reply code body)
  show ?thesis
  proof (cases "code = 200")
    case False
    with Reply assms show ?thesis
      by (simp add: Let_def upload_thumbnail_def extract_thumbnail_def upload_photo_binary_def io_bind_def
            read_bytes_def http_def io_ret_def log_def path_exists_def os_remove_def)
  next
    case True
    with Reply assms show ?thesis
      by (cases body; cases "the body")
         (simp_all add: Let_def upload_thumbnail_def extract_thumbnail_def upload_photo_binary_def io_bind_def
            read_bytes_def http_def uploaded_status_def r_json_def io_ret_def io_raise_def lift_def
            path_exists_def os_remove_def)
  qed
qed


text \<open>
  C7: a video-to-feed upload of a readable file, with thumbnail extraction at hand, never
  raises, and the requests it sends are an initial part of four: the two of the one binary
  video upload (its initialisation and the post of the bytes), then the one thumbnail
  upload, then the one configure call, in this order and all with the upload id derived
  at the start; none of them is sent twice. When the platform serves the upload (the
  first request is answered, the posted bytes are accepted with a 200 and a JSON object,
  the thumbnail upload raises nothing), all four are sent. When the platform refuses the
  posted bytes, the run ends after the binary upload and returns \<^verbatim>\<open>None\<close>.
\<close>

theorem video_upload_order:
  assumes "readable p s"
    and "ffmpeg s p (rsplit_dot p @ ''_thumb.jpg'') = FfWrote"
  shows "\<exists>r s' k. video_upload t p cap None s = (Inr r, s')
           \<and> 0 < k
           \<and> requests (trace s') = requests (trace s) @
                take k [RuploadVideoInit (upload_id_of t) (get_video_info p s) False False,
                        RuploadVideoPost (upload_id_of t) (get_video_info p s) False False,
                        RuploadPhoto (upload_id_of t) (rsplit_dot p @ ''_thumb.jpg''),
                        Configure FeedVideo (upload_id_of t) cap]
           \<and> (net s (nreq (trace s)) \<noteq> Failed \<and> accepted (net s (nreq (trace s) + 1))
                \<and> quiet (net s (nreq (trace s) + 2)) \<longrightarrow> k = 4)
           \<and> (net s (nreq (trace s)) \<noteq> Failed
                \<and> (\<exists>code body. net s (nreq (trace s) + 1) = Reply code body \<and> code \<noteq> 200) \<longrightarrow>
                  r = None \<and> k = 2)"
proof -
  define uid where "uid = upload_id_of t"
  define vi where "vi = get_video_info p s"
  define th where "th = rsplit_dot p @ ''_thumb.jpg''"
  define tail where "tail = io_bind (upload_thumbnail p uid None) (\<lambda>_.
               io_bind (emit (Delay 3000 6000)) (\<lambda>_.
               io_bind refresh_csrf (\<lambda>_.
               io_bind (http (Configure FeedVideo uid cap))
                 (configure_result ''Configure video feed'' True))))"
  define h where "h = (\<lambda>e::exn. io_bind (log Error ''Erro no upload de video'') (\<lambda>_. io_ret (None::json option)))"
  have pe: "path_exists p s" using assms(1) by (simp add: readable_def path_exists_def)
  have vu: "video_upload t p cap None s =
      io_try (io_bind (upload_video_binary p uid vi False False) (\<lambda>ok. if \<not> ok then io_ret None else tail)) h s"
    unfolding tail_def h_def uid_def vi_def using pe by (simp add: video_upload_def)
  have hres: "h e s0 = (Inr None, s0\<lparr>logs := logs s0 @ [(Error, ''Erro no upload de video'')]\<rparr>)" for e s0
    by (simp add: h_def io_bind_def log_def io_ret_def)
  show ?thesis
  proof (cases "net s (nreq (trace s)) \<noteq> Failed \<and> accepted (net s (Suc (nreq (trace s))))")
    case False
    obtain x1 s1 where b: "upload_video_binary p uid vi False False s = (x1, s1)"
      by (cases "upload_video_binary p uid vi False False s") auto
    from upload_video_binary_unserved[OF assms(1) False, of uid vi False False] b
    have nt: "x1 \<noteq> Inr True"
      and rq: "requests (trace s1) = requests (trace s) @ [RuploadVideoInit uid vi False False]
        \<or> requests (trace s1) = requests (trace s) @ [RuploadVideoInit uid vi False False, RuploadVideoPost uid vi False False]"
      by simp_all
    have "\<exists>s'. video_upload t p cap None s = (Inr None, s') \<and> requests (trace s') = requests (trace s1)"
    proof (cases x1)
      case (Inl e)
      with b show ?thesis by (simp add: vu io_try_def io_bind_def hres)
    next
      case (Inr ok)
      with nt have "\<not> ok" by simp
      with Inr b show ?thesis by (simp add: vu io_try_def io_bind_def io_ret_def)
    qed
    then obtain s' where v: "video_upload t p cap None s = (Inr None, s')"
      "requests (trace s') = requests (trace s1)" by blast
    have rej: "net s (nreq (trace s)) \<noteq> Failed
                \<and> (\<exists>code body. net s (nreq (trace s) + 1) = Reply code body \<and> code \<noteq> 200) \<longrightarrow>
          requests (trace s1) = requests (trace s) @ [RuploadVideoInit uid vi False False, RuploadVideoPost uid vi False False]"
    proof
      assume a: "net s (nreq (trace s)) \<noteq> Failed
                \<and> (\<exists>code body. net s (nreq (trace s) + 1) = Reply code body \<and> code \<noteq> 200)"
      then obtain code body where r: "net s (Suc (nreq (trace s))) = Reply code body" "code \<noteq> 200"
        by auto
      from a have nf: "net s (nreq (trace s)) \<noteq> Failed" by simp
      show "requests (trace s1) = requests (trace s) @ [RuploadVideoInit uid vi False False, RuploadVideoPost uid vi False False]"
        using upload_video_binary_rejected[OF assms(1) nf r, of uid vi False False] b by auto
    qed
    from rq show ?thesis
    proof
      assume one: "requests (trace s1) = requests (trace s) @ [RuploadVideoInit uid vi False False]"
      with rej have nr: "\<not> (net s (nreq (trace s)) \<noteq> Failed
                \<and> (\<exists>code body. net s (nreq (trace s) + 1) = Reply code body \<and> code \<noteq> 200))"
        by auto
      show ?thesis
        apply (rule exI[of _ None], rule exI[of _ s'], rule exI[of _ 1])
        using v one False nr by (auto simp: uid_def vi_def)
    next
      assume two: "requests (trace s1) = requests (trace s) @ [RuploadVideoInit uid vi False False, RuploadVideoPost uid vi False False]"
      show ?thesis
        apply (rule exI[of _ None], rule exI[of _ s'], rule exI[of _ 2])
        using v two False by (auto simp: uid_def vi_def)
    qed
  next
    case True
    define s2 where "s2 = s\<lparr>trace := trace s @ [Net (RuploadVideoInit uid vi False False) (csrf_header s),
                                      Net (RuploadVideoPost uid vi False False) (csrf_header s)]\<rparr>"
    have b: "upload_video_binary p uid vi False False s = (Inr True, s2)"
      using upload_video_binary_accepted[where p = p and s = s and uid = uid and vi = vi and c = False and st = False] assms(1) True by (simp add: s2_def)
    have f2: "ffmpeg s2 p (rsplit_dot p @ ''_thumb.jpg'') = FfWrote" using assms(2) by (simp add: s2_def)
    have n2: "net s2 (nreq (trace s2)) = net s (nreq (trace s) + 2)" by (simp add: s2_def)
    have norej: "\<not> (\<exists>code body. net s (nreq (trace s) + 1) = Reply code body \<and> code \<noteq> 200)"
      using True by (auto simp: accepted_def split: reply.splits option.splits json.splits)
    obtain x3 s3 where t3: "upload_thumbnail p uid None s2 = (x3, s3)"
      by (cases "upload_thumbnail p uid None s2") auto
    have rq3: "requests (trace s3) = requests (trace s) @
        [RuploadVideoInit uid vi False False, RuploadVideoPost uid vi False False, RuploadPhoto uid th]"
      using upload_thumbnail_sends[OF f2, of uid] t3 by (simp add: s2_def th_def)
    have q3: "quiet (net s (nreq (trace s) + 2)) \<Longrightarrow> x3 = Inr ()"
      using upload_thumbnail_extracted[OF f2, of uid] t3 n2 by auto
    show ?thesis
    proof (cases x3)
      case (Inl e)
      then have "tail s2 = (Inl e, s3)" by (simp add: tail_def io_bind_def t3)
      then have v: "video_upload t p cap None s = (Inr None, s3\<lparr>logs := logs s3 @ [(Error, ''Erro no upload de video'')]\<rparr>)"
        by (simp add: vu io_try_def io_bind_def[of "upload_video_binary p uid vi False False"] b hres)
      have nq: "\<not> quiet (net s (nreq (trace s) + 2))" using q3 Inl by auto
      show ?thesis
        apply (rule exI[of _ None], rule exI, rule exI[of _ 3])
        using v rq3 nq norej by (auto simp: uid_def vi_def th_def)
    next
      case (Inr u)
      obtain x s4 where c: "io_bind (emit (Delay 3000 6000)) (\<lambda>_. io_bind refresh_csrf (\<lambda>_.
             io_bind (http (Configure FeedVideo uid cap)) (configure_result ''Configure video feed'' True))) s3 = (x, s4)"
        "requests (trace s4) = requests (trace s3) @ [Configure FeedVideo uid cap]"
        using configure_tail[of 3000 6000 FeedVideo uid cap "''Configure video feed''" True s3] by blast
      have tl: "tail s2 = (x, s4)"
        using Inr c(1) by (simp add: tail_def io_bind_def[of "upload_thumbnail p uid None"] t3)
      have "\<exists>r s'. video_upload t p cap None s = (Inr r, s') \<and> requests (trace s') = requests (trace s4)"
      proof (cases x)
        case (Inl e)
        with tl show ?thesis
          by (simp add: vu io_try_def io_bind_def[of "upload_video_binary p uid vi False False"] b hres)
      next
        case (Inr v)
        with tl show ?thesis
          by (simp add: vu io_try_def io_bind_def[of "upload_video_binary p uid vi False False"] b)
      qed
      then obtain r s' where v: "video_upload t p cap None s = (Inr r, s')"
        "requests (trace s') = requests (trace s4)" by blast
      show ?thesis
        apply (rule exI[of _ r], rule exI[of _ s'], rule exI[of _ 4])
        using v c(2) rq3 norej by (auto simp: uid_def vi_def th_def)
    qed
  qed
qed


lemma video_world_facts:
  "readable ''clip.mp4'' video_world"
  "ffmpeg video_world ''clip.mp4'' (rsplit_dot ''clip.mp4'' @ ''_thumb.jpg'') = FfWrote"
  "net video_world (nreq (trace video_world)) \<noteq> Failed"
  "accepted (net video_world (nreq (trace video_world) + 1))"
  "quiet (net video_world (nreq (trace video_world) + 2))"
  "published (net video_world (nreq (trace video_world) + 3))"
  "trace video_world = []"
  "get_video_info ''clip.mp4'' video_world = \<lparr>duration = 10, duration_ms = 10000, width = 1080, height = 1920\<rparr>"
  "rsplit_dot ''clip.mp4'' = ''clip''"
  by (simp_all add: video_world_def init_state_def readable_def accepted_def quiet_def published_def
        get_video_info_def py_int_def float_defs rsplit_dot_def)

lemma video_rejected_world_facts:
  "readable ''clip.mp4'' video_rejected_world"
  "ffmpeg video_rejected_world ''clip.mp4'' (rsplit_dot ''clip.mp4'' @ ''_thumb.jpg'') = FfWrote"
  "net video_rejected_world (nreq (trace video_rejected_world)) \<noteq> Failed"
  "net video_rejected_world (nreq (trace video_rejected_world) + 1) = Reply 500 None"
  "trace video_rejected_world = []"
  "get_video_info ''clip.mp4'' video_rejected_world = \<lparr>duration = 10, duration_ms = 10000, width = 1080, height = 1920\<rparr>"
  by (simp_all add: video_rejected_world_def video_world_def init_state_def readable_def
        get_video_info_def py_int_def float_defs)

theorem video_upload_order_witness:
  "requests (trace (snd (video_upload 1700000000 ''clip.mp4'' ''hello'' None video_world))) =
     [RuploadVideoInit (upload_id_of 1700000000)
        \<lparr>duration = 10, duration_ms = 10000, width = 1080, height = 1920\<rparr> False False,
      RuploadVideoPost (upload_id_of 1700000000)
        \<lparr>duration = 10, duration_ms = 10000, width = 1080, height = 1920\<rparr> False False,
      RuploadPhoto (upload_id_of 1700000000) ''clip_thumb.jpg'',
      Configure FeedVideo (upload_id_of 1700000000) ''hello'']
   \<and> fst (video_upload 1700000000 ''clip.mp4'' ''hello'' None video_rejected_world) = Inr None
   \<and> requests (trace (snd (video_upload 1700000000 ''clip.mp4'' ''hello'' None video_rejected_world))) =
     [RuploadVideoInit (upload_id_of 1700000000)
        \<lparr>duration = 10, duration_ms = 10000, width = 1080, height = 1920\<rparr> False False,
      RuploadVideoPost (upload_id_of 1700000000)
        \<lparr>duration = 10, duration_ms = 10000, width = 1080, height = 1920\<rparr> False False]"
proof -
  have a: "requests (trace (snd (video_upload 1700000000 ''clip.mp4'' ''hello'' None video_world))) =
     [RuploadVideoInit (upload_id_of 1700000000)
        \<lparr>duration = 10, duration_ms = 10000, width = 1080, height = 1920\<rparr> False False,
      RuploadVideoPost (upload_id_of 1700000000)
        \<lparr>duration = 10, duration_ms = 10000, width = 1080, height = 1920\<rparr> False False,
      RuploadPhoto (upload_id_of 1700000000) ''clip_thumb.jpg'',
      Configure FeedVideo (upload_id_of 1700000000) ''hello'']"
    using video_upload_order[OF video_world_facts(1,2), of 1700000000 "''hello''"] video_world_facts(3-5)
    by (auto simp: video_world_facts(7-9))
  have b: "fst (video_upload 1700000000 ''clip.mp4'' ''hello'' None video_rejected_world) = Inr None
   \<and> requests (trace (snd (video_upload 1700000000 ''clip.mp4'' ''hello'' None video_rejected_world))) =
     [RuploadVideoInit (upload_id_of 1700000000)
        \<lparr>duration = 10, duration_ms = 10000, width = 1080, height = 1920\<rparr> False False,
      RuploadVideoPost (upload_id_of 1700000000)
        \<lparr>duration = 10, duration_ms = 10000, width = 1080, height = 1920\<rparr> False False]"
    using video_upload_order[OF video_rejected_world_facts(1,2), of 1700000000 "''hello''"]
      video_rejected_world_facts(3,4)
    by (auto simp: video_rejected_world_facts(5,6))
  show ?thesis using a b by simp
qed

section \<open>C8: an overlong story video\<close>

lemma extends_logs: "extends s s' \<Longrightarrow> x \<in> set (logs s) \<Longrightarrow> x \<in> set (logs s')"
  unfolding extends_iff by auto

lemma extends_requests:
  "extends s s' \<Longrightarrow> \<exists>rest. requests (trace s') = requests (trace s) @ rest"
  unfolding extends_iff by auto

lemma grows_story_rest:
  "grows (io_try
     (io_bind m (\<lambda>ok.
        if \<not> ok then io_ret None
        else
          io_bind (upload_thumbnail p uid th) (\<lambda>_.
          io_bind (emit (Delay 3000 6000)) (\<lambda>_.
          io_bind refresh_csrf (\<lambda>_.
          io_bind (http (Configure sf uid cap)) (configure_result what rm))))))
     (\<lambda>e. io_bind (log Error msg) (\<lambda>_. io_ret None)))"
  if "grows m"
  using that by auto

lemma grows_post_rest:
  "grows (io_bind (http (RuploadVideoPost uid vi c st)) (\<lambda>(code, body).
            if code = 200 then io_bind (uploaded_status body) (\<lambda>_. io_ret True)
            else io_bind (log Error ''Upload video falhou'') (\<lambda>_. io_ret False)))"
  by auto

lemma story_long_unfold:
  assumes "readable p s" "duration (get_video_info p s) > 60"
  shows "video_upload_to_story t p cap th s =
     io_try
       (io_bind (upload_video_binary p (upload_id_of t) (get_video_info p s) False True) (\<lambda>ok.
          if \<not> ok then io_ret None
          else
            io_bind (upload_thumbnail p (upload_id_of t) th) (\<lambda>_.
            io_bind (emit (Delay 3000 6000)) (\<lambda>_.
            io_bind refresh_csrf (\<lambda>_.
            io_bind (http (Configure StoryVideo (upload_id_of t) []))
              (configure_result ''Configure story video'' False))))))
       (\<lambda>e. io_bind (log Error ''Erro no upload de story (video)'') (\<lambda>_. io_ret None))
       (s\<lparr>logs := logs s @ [(Warning, ''Stories permitem no maximo 60 segundos de video'')]\<rparr>)"
proof -
  have "path_exists p s" using assms(1) by (simp add: readable_def path_exists_def)
  then show ?thesis
    using assms(2) by (simp add: video_upload_to_story_def io_try_def)
qed

lemma story_long_warning:
  assumes "readable p s" "duration (get_video_info p s) > 60"
  shows "(Warning, ''Stories permitem no maximo 60 segundos de video'')
           \<in> set (logs (snd (video_upload_to_story t p cap th s)))"
proof -
  define sw where "sw = s\<lparr>logs := logs s @ [(Warning, ''Stories permitem no maximo 60 segundos de video'')]\<rparr>"
  have "extends sw (snd (video_upload_to_story t p cap th s))"
    unfolding story_long_unfold[OF assms] sw_def[symmetric]
    using grows_story_rest[OF grows_upload_video_binary] by (simp add: grows_def)
  moreover have "(Warning, ''Stories permitem no maximo 60 segundos de video'') \<in> set (logs sw)"
    by (simp add: sw_def)
  ultimately show ?thesis by (rule extends_logs)
qed

lemma story_long_first_request:
  assumes "readable p s" "duration (get_video_info p s) > 60"
  shows "\<exists>rest. requests (trace (snd (video_upload_to_story t p cap th s))) =
           requests (trace s) @ RuploadVideoInit (upload_id_of t) (get_video_info p s) False True # rest"
proof -
  define sw where "sw = s\<lparr>logs := logs s @ [(Warning, ''Stories permitem no maximo 60 segundos de video'')]\<rparr>"
  define s1 where "s1 = sw\<lparr>trace := trace sw @ [Net (RuploadVideoInit (upload_id_of t) (get_video_info p s) False True) (csrf_header sw)]\<rparr>"
  have rd: "readable p sw" using assms(1) by (simp add: sw_def readable_def)
  have tr: "requests (trace s1) = requests (trace s) @ [RuploadVideoInit (upload_id_of t) (get_video_info p s) False True]"
    by (simp add: s1_def sw_def)
  show ?thesis
  proof (cases "net sw (nreq (trace sw))")
    case Failed
    then have "video_upload_to_story t p cap th s =
        (Inr None, s1\<lparr>logs := logs s1 @ [(Error, ''Erro no upload de story (video)'')]\<rparr>)"
      unfolding story_long_unfold[OF assms] sw_def[symmetric]
      by (simp add: io_try_def io_bind_def[of "upload_video_binary p (upload_id_of t) (get_video_info p s) False True"]
            upload_video_binary_first[OF rd] s1_def io_ret_def)
    then show ?thesis using tr by simp
  next
    case (Reply c0 b0)
    define m where "m = io_bind (http (RuploadVideoPost (upload_id_of t) (get_video_info p s) False True)) (\<lambda>(code, body).
            if code = 200 then io_bind (uploaded_status body) (\<lambda>_. io_ret True)
            else io_bind (log Error ''Upload video falhou'') (\<lambda>_. io_ret False))"
    have gm: "grows m" unfolding m_def by (rule grows_post_rest)
    have u: "upload_video_binary p (upload_id_of t) (get_video_info p s) False True sw = m s1"
      using Reply by (simp add: upload_video_binary_first[OF rd] s1_def m_def)
    have "video_upload_to_story t p cap th s =
       io_try
       (io_bind m (\<lambda>ok.
          if \<not> ok then io_ret None
          else
            io_bind (upload_thumbnail p (upload_id_of t) th) (\<lambda>_.
            io_bind (emit (Delay 3000 6000)) (\<lambda>_.
            io_bind refresh_csrf (\<lambda>_.
            io_bind (http (Configure StoryVideo (upload_id_of t) []))
              (configure_result ''Configure story video'' False))))))
       (\<lambda>e. io_bind (log Error ''Erro no upload de story (video)'') (\<lambda>_. io_ret None)) s1"
      unfolding story_long_unfold[OF assms] sw_def[symmetric]
      by (simp add: io_try_def io_bind_def[of "upload_video_binary p (upload_id_of t) (get_video_info p s) False True"]
            io_bind_def[of m] u)
    then have "extends s1 (snd (video_upload_to_story t p cap th s))"
      using grows_story_rest[OF gm] by (simp add: grows_def)
    then obtain rest where "requests (trace (snd (video_upload_to_story t p cap th s))) = requests (trace s1) @ rest"
      using extends_requests by blast
    then show ?thesis using tr by simp
  qed
qed

lemma story_long_completes:
  assumes "readable p s" "duration (get_video_info p s) > 60"
    and "ffmpeg s p (rsplit_dot p @ ''_thumb.jpg'') = FfWrote"
    and "net s (nreq (trace s)) \<noteq> Failed"
    and "accepted (net s (nreq (trace s) + 1))"
    and "quiet (net s (nreq (trace s) + 2))"
    and "published (net s (nreq (trace s) + 3))"
  shows "\<exists>body. net s (nreq (trace s) + 3) = Reply 200 (Some body)
           \<and> fst (video_upload_to_story t p cap None s) = Inr (Some body)
           \<and> requests (trace (snd (video_upload_to_story t p cap None s))) = requests (trace s) @
                [RuploadVideoInit (upload_id_of t) (get_video_info p s) False True,
                 RuploadVideoPost (upload_id_of t) (get_video_info p s) False True,
                 RuploadPhoto (upload_id_of t) (rsplit_dot p @ ''_thumb.jpg''),
                 Configure StoryVideo (upload_id_of t) []]"
proof -
  define sw where "sw = s\<lparr>logs := logs s @ [(Warning, ''Stories permitem no maximo 60 segundos de video'')]\<rparr>"
  have a: "readable p sw" "ffmpeg sw p (rsplit_dot p @ ''_thumb.jpg'') = FfWrote"
    "net sw (nreq (trace sw)) \<noteq> Failed" "accepted (net sw (nreq (trace sw) + 1))"
    "quiet (net sw (nreq (trace sw) + 2))"
    using assms by (simp_all add: sw_def readable_def)
  have pb: "published (net sw (nreq (trace sw) + 3)) \<and> \<not> False" using assms(7) by (simp add: sw_def)
  obtain x s' where m: "io_bind (upload_video_binary p (upload_id_of t) (get_video_info p s) False True) (\<lambda>ok.
             if \<not> ok then io_ret None
             else
               io_bind (upload_thumbnail p (upload_id_of t) None) (\<lambda>_.
               io_bind (emit (Delay 3000 6000)) (\<lambda>_.
               io_bind refresh_csrf (\<lambda>_.
               io_bind (http (Configure StoryVideo (upload_id_of t) []))
                 (configure_result ''Configure story video'' False))))) sw = (x, s')"
      "requests (trace s') = requests (trace sw) @
                [RuploadVideoInit (upload_id_of t) (get_video_info p s) False True,
                 RuploadVideoPost (upload_id_of t) (get_video_info p s) False True,
                 RuploadPhoto (upload_id_of t) (rsplit_dot p @ ''_thumb.jpg''),
                 Configure StoryVideo (upload_id_of t) []]"
      "published (net sw (nreq (trace sw) + 3)) \<and> \<not> False \<longrightarrow>
                (\<exists>body. net sw (nreq (trace sw) + 3) = Reply 200 (Some body) \<and> x = Inr (Some body))"
    using video_pipeline_requests[OF a, of "upload_id_of t" "get_video_info p s" False True
        StoryVideo "[]" "''Configure story video''" False]
    by blast
  from m(3) pb obtain body where b: "net sw (nreq (trace sw) + 3) = Reply 200 (Some body)" "x = Inr (Some body)"
    by blast
  have "video_upload_to_story t p cap None s = (Inr (Some body), s')"
    unfolding story_long_unfold[OF assms(1,2)] sw_def[symmetric]
    using m(1) b(2) by (simp add: io_try_def)
  then show ?thesis using b(1) m(2) by (simp add: sw_def)
qed

text \<open>
  C8: a story video upload of a readable file whose probed duration exceeds 60 seconds
  logs the warning and goes on to the network: the first request of the binary upload is
  sent, whatever the duration. When the platform accepts each phase (and thumbnail
  extraction is at hand), the run completes: binary upload, thumbnail upload and configure
  call are sent in this order, and the configure answer is returned as the result.
\<close>

theorem story_overlong_not_rejected:
  assumes "readable p s" "duration (get_video_info p s) > 60"
  shows "(Warning, ''Stories permitem no maximo 60 segundos de video'')
           \<in> set (logs (snd (video_upload_to_story t p cap th s)))
       \<and> (\<exists>rest. requests (trace (snd (video_upload_to_story t p cap th s))) =
             requests (trace s) @ RuploadVideoInit (upload_id_of t) (get_video_info p s) False True # rest)
       \<and> (ffmpeg s p (rsplit_dot p @ ''_thumb.jpg'') = FfWrote
          \<and> net s (nreq (trace s)) \<noteq> Failed
          \<and> accepted (net s (nreq (trace s) + 1))
          \<and> quiet (net s (nreq (trace s) + 2))
          \<and> published (net s (nreq (trace s) + 3)) \<longrightarrow>
            (\<exists>body. net s (nreq (trace s) + 3) = Reply 200 (Some body)
               \<and> fst (video_upload_to_story t p cap None s) = Inr (Some body)
               \<and> requests (trace (snd (video_upload_to_story t p cap None s))) = requests (trace s) @
                    [RuploadVideoInit (upload_id_of t) (get_video_info p s) False True,
                     RuploadVideoPost (upload_id_of t) (get_video_info p s) False True,
                     RuploadPhoto (upload_id_of t) (rsplit_dot p @ ''_thumb.jpg''),
                     Configure StoryVideo (upload_id_of t) []]))"
  using story_long_warning[OF assms] story_long_first_request[OF assms] story_long_completes[OF assms]
  by blast

lemma long_story_world_facts:
  "readable ''clip.mp4'' long_story_world"
  "duration (get_video_info ''clip.mp4'' long_story_world) > 60"
  "ffmpeg long_story_world ''clip.mp4'' (rsplit_dot ''clip.mp4'' @ ''_thumb.jpg'') = FfWrote"
  "net long_story_world (nreq (trace long_story_world)) \<noteq> Failed"
  "accepted (net long_story_world (nreq (trace long_story_world) + 1))"
  "quiet (net long_story_world (nreq (trace long_story_world) + 2))"
  "published (net long_story_world (nreq (trace long_story_world) + 3))"
  "trace long_story_world = []"
  "get_video_info ''clip.mp4'' long_story_world = \<lparr>duration = 75, duration_ms = 75000, width = 1080, height = 1920\<rparr>"
  "rsplit_dot ''clip.mp4'' = ''clip''"
  "net long_story_world 3 =
     Reply 200 (Some (JObj [(''status'', JStr ''ok''), (''media'', JObj [(''code'', JStr ''Cx1'')])]))"
  by (simp_all add: long_story_world_def video_world_def init_state_def readable_def accepted_def
        quiet_def published_def get_video_info_def py_int_def float_defs rsplit_dot_def)

theorem story_overlong_not_rejected_witness:
  "(Warning, ''Stories permitem no maximo 60 segundos de video'')
      \<in> set (logs (snd (video_upload_to_story 1700000000 ''clip.mp4'' [] None long_story_world)))
   \<and> fst (video_upload_to_story 1700000000 ''clip.mp4'' [] None long_story_world) =
       Inr (Some (JObj [(''status'', JStr ''ok''), (''media'', JObj [(''code'', JStr ''Cx1'')])]))
   \<and> requests (trace (snd (video_upload_to_story 1700000000 ''clip.mp4'' [] None long_story_world))) =
       [RuploadVideoInit (upload_id_of 1700000000)
          \<lparr>duration = 75, duration_ms = 75000, width = 1080, height = 1920\<rparr> False True,
        RuploadVideoPost (upload_id_of 1700000000)
          \<lparr>duration = 75, duration_ms = 75000, width = 1080, height = 1920\<rparr> False True,
        RuploadPhoto (upload_id_of 1700000000) ''clip_thumb.jpg'',
        Configure StoryVideo (upload_id_of 1700000000) []]"
  using story_overlong_not_rejected[OF long_story_world_facts(1,2), of 1700000000 "[]" None]
    long_story_world_facts(3-7)
  by (auto simp: long_story_world_facts(8-11))

section \<open>C4: upload ids\<close>

declare str_nat.simps [simp del]

lemma digits_distinct: "distinct ''0123456789''"
  by simp

lemma digit_inj:
  "a < 10 \<Longrightarrow> b < 10 \<Longrightarrow> ''0123456789'' ! a = ''0123456789'' ! b \<Longrightarrow> a = b"
  using digits_distinct by (simp add: nth_eq_iff_index_eq del: distinct.simps)

lemma digit_not_minus: "a < 10 \<Longrightarrow> ''0123456789'' ! a \<noteq> CHR ''-''"
proof -
  assume "a < 10"
  then have "''0123456789'' ! a \<in> set ''0123456789''" by (simp del: set_simps)
  then show ?thesis by auto
qed

lemma str_nat_nonempty: "str_nat n \<noteq> []"
  by (subst str_nat.simps) simp

lemma str_nat_last: "last (str_nat n) = ''0123456789'' ! (n mod 10)"
  by (subst str_nat.simps) simp

lemma str_nat_butlast: "10 \<le> n \<Longrightarrow> butlast (str_nat n) = str_nat (n div 10)"
  by (subst str_nat.simps) simp

lemma str_nat_small: "n < 10 \<Longrightarrow> str_nat n = [''0123456789'' ! n]"
  by (subst str_nat.simps) simp

lemma str_nat_length_big: "10 \<le> n \<Longrightarrow> length (str_nat n) \<ge> 2"
proof -
  assume "10 \<le> n"
  then have "str_nat n = str_nat (n div 10) @ [''0123456789'' ! (n mod 10)]"
    by (subst str_nat.simps) simp
  moreover have "length (str_nat (n div 10)) \<ge> 1"
    using str_nat_nonempty[of "n div 10"] by (cases "str_nat (n div 10)") auto
  ultimately show ?thesis by simp
qed

lemma str_nat_inj: "str_nat m = str_nat n \<Longrightarrow> m = n"
proof (induction m arbitrary: n rule: less_induct)
  case (less m)
  have l: "''0123456789'' ! (m mod 10) = ''0123456789'' ! (n mod 10)"
    using less.prems str_nat_last by metis
  then have md: "m mod 10 = n mod 10" by (intro digit_inj) simp_all
  show ?case
  proof (cases "m < 10")
    case True
    have "n < 10"
    proof (rule ccontr)
      assume "\<not> n < 10"
      then have "length (str_nat n) \<ge> 2" using str_nat_length_big by simp
      moreover have "length (str_nat m) = 1" using True by (simp add: str_nat_small)
      ultimately show False using less.prems by simp
    qed
    with True md show ?thesis by simp
  next
    case False
    have nbig: "10 \<le> n"
    proof (rule ccontr)
      assume "\<not> 10 \<le> n"
      then have "length (str_nat n) = 1" by (simp add: str_nat_small)
      moreover have "length (str_nat m) \<ge> 2" using False str_nat_length_big by simp
      ultimately show False using less.prems by simp
    qed
    have "str_nat (m div 10) = str_nat (n div 10)"
      using less.prems False nbig str_nat_butlast by (metis not_less)
    moreover have "m div 10 < m" using False by simp
    ultimately have "m div 10 = n div 10" using less.IH by blast
    with md show ?thesis by (metis div_mult_mod_eq)
  qed
qed

lemma str_nat_no_minus: "hd (str_nat n) \<noteq> CHR ''-''"
proof (induction n rule: less_induct)
  case (less n)
  show ?case
  proof (cases "n < 10")
    case True
    then show ?thesis using digit_not_minus[of n] by (simp add: str_nat_small)
  next
    case False
    then have "str_nat n = str_nat (n div 10) @ [''0123456789'' ! (n mod 10)]"
      by (subst str_nat.simps) simp
    then have "hd (str_nat n) = hd (str_nat (n div 10))"
      using str_nat_nonempty[of "n div 10"] by simp
    moreover have "n div 10 < n" using False by simp
    ultimately show ?thesis using less.IH by simp
  qed
qed

lemma str_int_inj: "str_int i = str_int j \<Longrightarrow> i = j"
proof -
  assume a: "str_int i = str_int j"
  have neg: "i < 0 \<longleftrightarrow> j < 0"
  proof (rule ccontr)
    assume "\<not> (i < 0 \<longleftrightarrow> j < 0)"
    then consider "i < 0" "\<not> j < 0" | "\<not> i < 0" "j < 0" by blast
    then show False
    proof cases
      case 1
      with a have "CHR ''-'' # str_nat (nat (- i)) = str_nat (nat j)" by (simp add: str_int_def)
      then have "hd (str_nat (nat j)) = CHR ''-''" by (metis list.sel(1))
      then show False using str_nat_no_minus by blast
    next
      case 2
      with a have "str_nat (nat i) = CHR ''-'' # str_nat (nat (- j))" by (simp add: str_int_def)
      then have "hd (str_nat (nat i)) = CHR ''-''" by (metis list.sel(1))
      then show False using str_nat_no_minus by blast
    qed
  qed
  show "i = j"
  proof (cases "i < 0")
    case True
    with neg a have "str_nat (nat (- i)) = str_nat (nat (- j))" by (simp add: str_int_def)
    then have "nat (- i) = nat (- j)" by (rule str_nat_inj)
    with True neg show ?thesis by simp
  next
    case False
    with neg a have "str_nat (nat i) = str_nat (nat j)" by (simp add: str_int_def)
    then have "nat i = nat j" by (rule str_nat_inj)
    with False neg show ?thesis by simp
  qed
qed

text \<open>
  The double nearest to 1700000000.001 lies just below that millisecond boundary, and its
  floating-point product with 1000 is rounded up across it.
\<close>

lemma upload_id_rounds_at_boundary:
  "(3565158400002097 / 2097152 :: real) < 1700000000001 / 1000
   \<and> py_int (float_mul (3565158400002097 / 2097152) 1000) = 1700000000001"
  by (simp add: float_defs py_int_def)

text \<open>
  C4 (as amended): the upload id is the decimal writing of
  \<^verbatim>\<open>int(time.time() * 1000)\<close>, the floating-point product of the clock reading with 1000
  cut to an integer, and of nothing else. Two publishes get the same upload id exactly
  when these integers are the same, as they are for two calls with the same clock reading
  and for the two readings of the counterexample, which lie 1/32768 of a second apart.
\<close>

theorem upload_id_equal_iff:
  "upload_id_of t1 = upload_id_of t2 \<longleftrightarrow> py_int (float_mul t1 1000) = py_int (float_mul t2 1000)"
  by (auto simp: upload_id_of_def dest: str_int_inj)

theorem upload_id_collision:
  "(1700000000 :: real) < 1700000000 + 1 / 32768
   \<and> py_int (float_mul 1700000000 1000) = 1700000000000
   \<and> py_int (float_mul (1700000000 + 1 / 32768) 1000) = 1700000000000
   \<and> upload_id_of 1700000000 = upload_id_of (1700000000 + 1 / 32768)"
  by (simp add: upload_id_of_def float_defs py_int_def)

section \<open>C10: paginated lists\<close>

lemma py_slice_to_length: "0 \<le> amount \<Longrightarrow> int (length (py_slice_to xs amount)) \<le> amount"
  by (simp add: py_slice_to_def)

lemma py_slice_to_Nil [simp]: "py_slice_to [] amount = []"
  by (simp add: py_slice_to_def)

lemma user_followers_bounded:
  assumes "user_followers fuel uid amount s = Some (r, s')"
  shows "int (length r) \<le> max 0 amount"
proof (cases "0 < amount")
  case True
  from assms obtain got where "r = py_slice_to got amount"
    by (auto simp: user_followers_def split: option.splits prod.splits)
  with True show ?thesis using py_slice_to_length[of amount got] by simp
next
  case False
  from assms obtain n where n: "fuel = Suc n"
    by (cases fuel) (auto simp: user_followers_def)
  with False assms have "r = []"
    by (auto simp: user_followers_def)
  then show ?thesis by simp
qed

lemma user_following_bounded:
  assumes "user_following fuel uid amount s = Some (r, s')"
  shows "int (length r) \<le> max 0 amount"
proof (cases "0 < amount")
  case True
  from assms obtain got where "r = py_slice_to got amount"
    by (auto simp: user_following_def split: option.splits prod.splits)
  with True show ?thesis using py_slice_to_length[of amount got] by simp
next
  case False
  from assms obtain n where n: "fuel = Suc n"
    by (cases fuel) (auto simp: user_following_def)
  with False assms have "r = []"
    by (auto simp: user_following_def)
  then show ?thesis by simp
qed

lemma append_users_acc:
  "append_users pic us acc = (fst (append_users pic us []), acc @ snd (append_users pic us []))"
proof (induction us arbitrary: acc)
  case Nil
  show ?case by simp
next
  case (Cons x xs)
  show ?case
  proof (cases x)
    case (JObj kvs)
    define u where "u = WebUser (dget kvs ''pk'' (JNum 0)) (dget kvs ''username'' (JStr []))
                 (dget kvs ''full_name'' (JStr [])) (dget kvs ''is_private'' (JBool False))
                 (dget kvs ''is_verified'' (JBool False))
                 (if pic then dget kvs ''profile_pic_url'' (JStr []) else JStr [])"
    have "append_users pic (x # xs) acc = append_users pic xs (acc @ [u])"
         "append_users pic (x # xs) [] = append_users pic xs [u]"
      by (simp_all add: JObj u_def)
    then show ?thesis
      using Cons[of "acc @ [u]"] Cons[of "[u]"] by simp
  qed simp_all
qed

lemma grows_r_json: "grows (r_json body)"
  unfolding r_json_def by (cases body) auto

lemma grows_api_get_loop: "grows (api_get_loop n ep ps retries a)"
proof (induction n arbitrary: a)
  case 0
  show ?case by simp
next
  case (Suc n)
  show ?case
    unfolding api_get_loop.simps(2)
    by (intro grows_bind grows_emit grows_try grows_http grows_log grows_raise grows_case_prod
          grows_if grows_ret grows_r_json Suc)
qed

lemma api_get_net: "net (snd (api_get ep ps retries s)) = net s"
proof -
  have "grows (api_get ep ps retries)"
    unfolding api_get_def by (auto intro!: grows_api_get_loop)
  then show ?thesis by (simp add: grows_def extends_def)
qed

lemma is_429_iff: "is_429 r \<longleftrightarrow> (\<exists>b. r = Reply 429 b)"
  by (cases r) (auto simp: is_429_def)

lemma api_get_decisive:
  "\<exists>s1. api_get ep ps 2 s = (surfaced (net s (decisive (net s) (nreq (trace s)))), s1)
      \<and> net s1 = net s \<and> nreq (trace s1) = decisive (net s) (nreq (trace s)) + 1"
proof -
  define k :: nat where "k = decisive (net s) (nreq (trace s)) - nreq (trace s)"
  have d: "decisive (net s) (nreq (trace s)) = nreq (trace s) + k"
    by (simp add: k_def decisive_def)
  have k2: "int k \<le> 2" by (simp add: k_def decisive_def)
  have a: "\<forall>i<k. \<exists>b. net s (nreq (trace s) + i) = Reply 429 b"
  proof (intro allI impI)
    fix i assume "i < k"
    then have "i = 0 \<and> is_429 (net s (nreq (trace s))) \<or> i = 1 \<and> is_429 (net s (nreq (trace s) + 1))"
      by (auto simp: k_def decisive_def split: if_splits)
    then show "\<exists>b. net s (nreq (trace s) + i) = Reply 429 b"
      by (auto simp: is_429_iff)
  qed
  have b: "int k < 2 \<longrightarrow> (\<forall>b. net s (nreq (trace s) + k) \<noteq> Reply 429 b)"
    using is_429_iff[of "net s (nreq (trace s))"] is_429_iff[of "net s (nreq (trace s) + 1)"]
    by (auto simp: k_def decisive_def split: if_splits)
  obtain s1 where s1: "api_get ep ps 2 s = (surfaced (net s (nreq (trace s) + k)), s1)"
    "trace s1 = trace s @ backoff_rounds (ApiGet ep ps) (csrf_header (snd (refresh_csrf s))) 0 k
                           @ [Delay 500 1500, Net (ApiGet ep ps) (csrf_header (snd (refresh_csrf s)))]"
    using api_get_retry[OF a k2 b, of ep ps] by blast
  have "net s1 = net s" using api_get_net[of ep ps 2 s] s1(1) by simp
  then show ?thesis using s1 d by auto
qed


lemma followers_loop_step:
  assumes "int (length acc) < amount"
  shows "\<exists>s1 nxt eo. net s1 = net s \<and> nreq (trace s1) = decisive (net s) (nreq (trace s)) + 1
      \<and> followers_loop (Suc m) uid amount count acc cur s =
         (if page_continues True (net s (decisive (net s) (nreq (trace s))))
          then followers_loop m uid amount count
                 (acc @ page_users True (net s (decisive (net s) (nreq (trace s))))) nxt s1
          else Some ((eo, acc @ page_users True (net s (decisive (net s) (nreq (trace s))))), s1))"
proof -
  define r where "r = net s (decisive (net s) (nreq (trace s)))"
  obtain s1 where a: "api_get [Lit ''friendships/'', Fmt (JNum uid), Lit ''/followers/'']
                ([(''count'', JNum count), (''search_surface'', JStr ''follow_list_page'')]
                   @ (if truthy cur then [(''max_id'', cur)] else [])) 2 s = (surfaced r, s1)"
    and n1: "net s1 = net s" "nreq (trace s1) = decisive (net s) (nreq (trace s)) + 1"
    unfolding r_def
    using api_get_decisive[of "[Lit ''friendships/'', Fmt (JNum uid), Lit ''/followers/'']"
        "[(''count'', JNum count), (''search_surface'', JStr ''follow_list_page'')]
                   @ (if truthy cur then [(''max_id'', cur)] else [])" s]
    by blast
  define s2 where "s2 = s1\<lparr>trace := trace s1 @ [Delay 1000 3000]\<rparr>"
  have n2: "net s2 = net s" "nreq (trace s2) = decisive (net s) (nreq (trace s)) + 1"
    using n1 by (simp_all add: s2_def)
  have stop: "\<exists>eo. followers_loop (Suc m) uid amount count acc cur s = Some ((eo, acc @ page_users True r), s1)"
    if "\<not> page_continues True r"
  proof (cases "surfaced r")
    case (Inl e)
    with assms a show ?thesis by (simp add: page_users_def)
  next
    case (Inr data)
    show ?thesis
    proof (cases "py_get data ''users'' (JArr [])")
      case (Inl e)
      with assms a Inr show ?thesis by (simp add: page_users_def)
    next
      case users: (Inr users)
      show ?thesis
      proof (cases "py_iter users")
        case (Inl e)
        with assms a Inr users show ?thesis by (simp add: page_users_def)
      next
        case us: (Inr us)
        have pu: "page_users True r = snd (append_users True us [])"
          by (simp add: page_users_def Inr users us)
        note ap = append_users_acc[of True us acc]
        show ?thesis
        proof (cases "fst (append_users True us [])")
          case (Some e)
          with assms a Inr users us ap pu show ?thesis by simp
        next
          case None
          show ?thesis
          proof (cases "py_get data ''next_max_id'' JNull")
            case (Inl e)
            with assms a Inr users us ap pu None show ?thesis by simp
          next
            case nxt: (Inr nxt)
            with that Inr users us None have "\<not> truthy nxt"
              by (simp add: page_continues_def)
            with assms a Inr users us ap pu None nxt show ?thesis by simp
          qed
        qed
      qed
    qed
  qed
  have go: "\<exists>nxt. followers_loop (Suc m) uid amount count acc cur s =
      followers_loop m uid amount count (acc @ page_users True r) nxt s2"
    if "page_continues True r"
  proof -
    from that obtain data where d: "surfaced r = Inr data"
      by (cases "surfaced r") (auto simp: page_continues_def)
    from that d obtain users where u: "py_get data ''users'' (JArr []) = Inr users"
      by (cases "py_get data ''users'' (JArr [])") (auto simp: page_continues_def)
    from that d u obtain us where us: "py_iter users = Inr us"
      by (cases "py_iter users") (auto simp: page_continues_def)
    from that d u us have none: "fst (append_users True us []) = None"
      by (simp add: page_continues_def)
    from that d u us none obtain nxt where nxt: "py_get data ''next_max_id'' JNull = Inr nxt" "truthy nxt"
      by (cases "py_get data ''next_max_id'' JNull") (auto simp: page_continues_def)
    have pu: "page_users True r = snd (append_users True us [])"
      by (simp add: page_users_def d u us)
    note ap = append_users_acc[of True us acc]
    have "followers_loop (Suc m) uid amount count acc cur s =
      followers_loop m uid amount count (acc @ page_users True r) nxt s2"
      using assms a d u us ap pu none nxt by (simp add: s2_def)
    then show ?thesis by blast
  qed
  show ?thesis
  proof (cases "page_continues True r")
    case True
    with go obtain nxt where "followers_loop (Suc m) uid amount count acc cur s =
      followers_loop m uid amount count (acc @ page_users True r) nxt s2" by blast
    with True n2 show ?thesis unfolding r_def[symmetric] by auto
  next
    case False
    with stop obtain eo where "followers_loop (Suc m) uid amount count acc cur s = Some ((eo, acc @ page_users True r), s1)"
      by blast
    with False n1 show ?thesis unfolding r_def[symmetric] by auto
  qed
qed

lemma followers_loop_pages:
  assumes "\<forall>i<k. int (length (acc @ fetched True (net s) (nreq (trace s)) i)) < amount
             \<and> page_continues True (net s (page_at (net s) (nreq (trace s)) i))"
    and "amount \<le> int (length (acc @ fetched True (net s) (nreq (trace s)) k))
         \<or> \<not> page_continues True (net s (page_at (net s) (nreq (trace s)) k))"
    and "k < fuel"
  shows "\<exists>eo s'. followers_loop fuel uid amount count acc cur s =
           Some ((eo, acc @ fetched True (net s) (nreq (trace s))
                         (if amount \<le> int (length (acc @ fetched True (net s) (nreq (trace s)) k))
                          then k else Suc k)), s')"
  using assms
proof (induction k arbitrary: acc cur s fuel)
  case 0
  from 0(3) obtain m where fuel: "fuel = Suc m" by (cases fuel) auto
  show ?case
  proof (cases "amount \<le> int (length acc)")
    case True
    then show ?thesis by (simp add: fuel)
  next
    case False
    then have lt: "int (length acc) < amount" by simp
    from False 0(2) have nc: "\<not> page_continues True (net s (decisive (net s) (nreq (trace s))))" by simp
    from followers_loop_step[OF lt, of s m uid count cur] nc
    obtain eo s1 where "followers_loop (Suc m) uid amount count acc cur s =
        Some ((eo, acc @ page_users True (net s (decisive (net s) (nreq (trace s))))), s1)"
      by auto
    with False show ?thesis by (auto simp: fuel)
  qed
next
  case (Suc k)
  from Suc.prems(3) obtain m where fuel: "fuel = Suc m" "k < m" by (cases fuel) auto
  define d where "d = decisive (net s) (nreq (trace s))"
  define pu where "pu = page_users True (net s d)"
  from Suc.prems(1) have lt: "int (length acc) < amount" and c0: "page_continues True (net s d)"
    by (auto simp: d_def)
  from followers_loop_step[OF lt, of s m uid count cur] c0
  obtain s1 nxt where s1: "net s1 = net s" "nreq (trace s1) = d + 1"
      "followers_loop (Suc m) uid amount count acc cur s = followers_loop m uid amount count (acc @ pu) nxt s1"
    unfolding d_def[symmetric] pu_def[symmetric] by auto
  have p1: "\<forall>i<k. int (length ((acc @ pu) @ fetched True (net s1) (nreq (trace s1)) i)) < amount
             \<and> page_continues True (net s1 (page_at (net s1) (nreq (trace s1)) i))"
  proof (intro allI impI)
    fix i assume "i < k"
    then have "Suc i < Suc k" by simp
    with Suc.prems(1) have "int (length (acc @ fetched True (net s) (nreq (trace s)) (Suc i))) < amount
             \<and> page_continues True (net s (page_at (net s) (nreq (trace s)) (Suc i)))"
      by blast
    then show "int (length ((acc @ pu) @ fetched True (net s1) (nreq (trace s1)) i)) < amount
             \<and> page_continues True (net s1 (page_at (net s1) (nreq (trace s1)) i))"
      by (simp add: s1 d_def pu_def)
  qed
  have p2: "amount \<le> int (length ((acc @ pu) @ fetched True (net s1) (nreq (trace s1)) k))
         \<or> \<not> page_continues True (net s1 (page_at (net s1) (nreq (trace s1)) k))"
    using Suc.prems(2) by (simp add: s1 d_def pu_def)
  from Suc.IH[OF p1 p2 fuel(2), of nxt] obtain eo s' where
    r: "followers_loop m uid amount count (acc @ pu) nxt s1 =
           Some ((eo, (acc @ pu) @ fetched True (net s1) (nreq (trace s1))
                         (if amount \<le> int (length ((acc @ pu) @ fetched True (net s1) (nreq (trace s1)) k))
                          then k else Suc k)), s')"
    by blast
  show ?case
    apply (rule exI[of _ eo], rule exI[of _ s'])
    using r s1 by (simp add: fuel d_def pu_def)
qed

lemma following_loop_step:
  assumes "int (length acc) < amount"
  shows "\<exists>s1 nxt eo. net s1 = net s \<and> nreq (trace s1) = decisive (net s) (nreq (trace s)) + 1
      \<and> following_loop (Suc m) uid amount count acc cur s =
         (if page_continues False (net s (decisive (net s) (nreq (trace s))))
          then following_loop m uid amount count
                 (acc @ page_users False (net s (decisive (net s) (nreq (trace s))))) nxt s1
          else Some ((eo, acc @ page_users False (net s (decisive (net s) (nreq (trace s))))), s1))"
proof -
  define r where "r = net s (decisive (net s) (nreq (trace s)))"
  obtain s1 where a: "api_get [Lit ''friendships/'', Fmt (JNum uid), Lit ''/following/'']
                ([(''count'', JNum count)]
                   @ (if truthy cur then [(''max_id'', cur)] else [])) 2 s = (surfaced r, s1)"
    and n1: "net s1 = net s" "nreq (trace s1) = decisive (net s) (nreq (trace s)) + 1"
    unfolding r_def
    using api_get_decisive[of "[Lit ''friendships/'', Fmt (JNum uid), Lit ''/following/'']"
        "[(''count'', JNum count)]
                   @ (if truthy cur then [(''max_id'', cur)] else [])" s]
    by blast
  define s2 where "s2 = s1\<lparr>trace := trace s1 @ [Delay 1000 3000]\<rparr>"
  have n2: "net s2 = net s" "nreq (trace s2) = decisive (net s) (nreq (trace s)) + 1"
    using n1 by (simp_all add: s2_def)
  have stop: "\<exists>eo. following_loop (Suc m) uid amount count acc cur s = Some ((eo, acc @ page_users False r), s1)"
    if "\<not> page_continues False r"
  proof (cases "surfaced r")
    case (Inl e)
    with assms a show ?thesis by (simp add: page_users_def)
  next
    case (Inr data)
    show ?thesis
    proof (cases "py_get data ''users'' (JArr [])")
      case (Inl e)
      with assms a Inr show ?thesis by (simp add: page_users_def)
    next
      case users: (Inr users)
      show ?thesis
      proof (cases "py_iter users")
        case (Inl e)
        with assms a Inr users show ?thesis by (simp add: page_users_def)
      next
        case us: (Inr us)
        have pu: "page_users False r = snd (append_users False us [])"
          by (simp add: page_users_def Inr users us)
        note ap = append_users_acc[of False us acc]
        show ?thesis
        proof (cases "fst (append_users False us [])")
          case (Some e)
          with assms a Inr users us ap pu show ?thesis by simp
        next
          case None
          show ?thesis
          proof (cases "py_get data ''next_max_id'' JNull")
            case (Inl e)
            with assms a Inr users us ap pu None show ?thesis by simp
          next
            case nxt: (Inr nxt)
            with that Inr users us None have "\<not> truthy nxt"
              by (simp add: page_continues_def)
            with assms a Inr users us ap pu None nxt show ?thesis by simp
          qed
        qed
      qed
    qed
  qed
  have go: "\<exists>nxt. following_loop (Suc m) uid amount count acc cur s =
      following_loop m uid amount count (acc @ page_users False r) nxt s2"
    if "page_continues False r"
  proof -
    from that obtain data where d: "surfaced r = Inr data"
      by (cases "surfaced r") (auto simp: page_continues_def)
    from that d obtain users where u: "py_get data ''users'' (JArr []) = Inr users"
      by (cases "py_get data ''users'' (JArr [])") (auto simp: page_continues_def)
    from that d u obtain us where us: "py_iter users = Inr us"
      by (cases "py_iter users") (auto simp: page_continues_def)
    from that d u us have none: "fst (append_users False us []) = None"
      by (simp add: page_continues_def)
    from that d u us none obtain nxt where nxt: "py_get data ''next_max_id'' JNull = Inr nxt" "truthy nxt"
      by (cases "py_get data ''next_max_id'' JNull") (auto simp: page_continues_def)
    have pu: "page_users False r = snd (append_users False us [])"
      by (simp add: page_users_def d u us)
    note ap = append_users_acc[of False us acc]
    have "following_loop (Suc m) uid amount count acc cur s =
      following_loop m uid amount count (acc @ page_users False r) nxt s2"
      using assms a d u us ap pu none nxt by (simp add: s2_def)
    then show ?thesis by blast
  qed
  show ?thesis
  proof (cases "page_continues False r")
    case True
    with go obtain nxt where "following_loop (Suc m) uid amount count acc cur s =
      following_loop m uid amount count (acc @ page_users False r) nxt s2" by blast
    with True n2 show ?thesis unfolding r_def[symmetric] by auto
  next
    case False
    with stop obtain eo where "following_loop (Suc m) uid amount count acc cur s = Some ((eo, acc @ page_users False r), s1)"
      by blast
    with False n1 show ?thesis unfolding r_def[symmetric] by auto
  qed
qed

lemma following_loop_pages:
  assumes "\<forall>i<k. int (length (acc @ fetched False (net s) (nreq (trace s)) i)) < amount
             \<and> page_continues False (net s (page_at (net s) (nreq (trace s)) i))"
    and "amount \<le> int (length (acc @ fetched False (net s) (nreq (trace s)) k))
         \<or> \<not> page_continues False (net s (page_at (net s) (nreq (trace s)) k))"
    and "k < fuel"
  shows "\<exists>eo s'. following_loop fuel uid amount count acc cur s =
           Some ((eo, acc @ fetched False (net s) (nreq (trace s))
                         (if amount \<le> int (length (acc @ fetched False (net s) (nreq (trace s)) k))
                          then k else Suc k)), s')"
  using assms
proof (induction k arbitrary: acc cur s fuel)
  case 0
  from 0(3) obtain m where fuel: "fuel = Suc m" by (cases fuel) auto
  show ?case
  proof (cases "amount \<le> int (length acc)")
    case True
    then show ?thesis by (simp add: fuel)
  next
    case False
    then have lt: "int (length acc) < amount" by simp
    from False 0(2) have nc: "\<not> page_continues False (net s (decisive (net s) (nreq (trace s))))" by simp
    from following_loop_step[OF lt, of s m uid count cur] nc
    obtain eo s1 where "following_loop (Suc m) uid amount count acc cur s =
        Some ((eo, acc @ page_users False (net s (decisive (net s) (nreq (trace s))))), s1)"
      by auto
    with False show ?thesis by (auto simp: fuel)
  qed
next
  case (Suc k)
  from Suc.prems(3) obtain m where fuel: "fuel = Suc m" "k < m" by (cases fuel) auto
  define d where "d = decisive (net s) (nreq (trace s))"
  define pu where "pu = page_users False (net s d)"
  from Suc.prems(1) have lt: "int (length acc) < amount" and c0: "page_continues False (net s d)"
    by (auto simp: d_def)
  from following_loop_step[OF lt, of s m uid count cur] c0
  obtain s1 nxt where s1: "net s1 = net s" "nreq (trace s1) = d + 1"
      "following_loop (Suc m) uid amount count acc cur s = following_loop m uid amount count (acc @ pu) nxt s1"
    unfolding d_def[symmetric] pu_def[symmetric] by auto
  have p1: "\<forall>i<k. int (length ((acc @ pu) @ fetched False (net s1) (nreq (trace s1)) i)) < amount
             \<and> page_continues False (net s1 (page_at (net s1) (nreq (trace s1)) i))"
  proof (intro allI impI)
    fix i assume "i < k"
    then have "Suc i < Suc k" by simp
    with Suc.prems(1) have "int (length (acc @ fetched False (net s) (nreq (trace s)) (Suc i))) < amount
             \<and> page_continues False (net s (page_at (net s) (nreq (trace s)) (Suc i)))"
      by blast
    then show "int (length ((acc @ pu) @ fetched False (net s1) (nreq (trace s1)) i)) < amount
             \<and> page_continues False (net s1 (page_at (net s1) (nreq (trace s1)) i))"
      by (simp add: s1 d_def pu_def)
  qed
  have p2: "amount \<le> int (length ((acc @ pu) @ fetched False (net s1) (nreq (trace s1)) k))
         \<or> \<not> page_continues False (net s1 (page_at (net s1) (nreq (trace s1)) k))"
    using Suc.prems(2) by (simp add: s1 d_def pu_def)
  from Suc.IH[OF p1 p2 fuel(2), of nxt] obtain eo s' where
    r: "following_loop m uid amount count (acc @ pu) nxt s1 =
           Some ((eo, (acc @ pu) @ fetched False (net s1) (nreq (trace s1))
                         (if amount \<le> int (length ((acc @ pu) @ fetched False (net s1) (nreq (trace s1)) k))
                          then k else Suc k)), s')"
    by blast
  show ?case
    apply (rule exI[of _ eo], rule exI[of _ s'])
    using r s1 by (simp add: fuel d_def pu_def)
qed


lemma page_users_error: "surfaced r = Inl e \<Longrightarrow> page_users pic r = [] \<and> \<not> page_continues pic r"
  by (simp add: page_users_def page_continues_def)


lemma two_pages_world_facts:
  "nreq (trace two_pages_world) = 0"
  "decisive (net two_pages_world) 0 = 0"
  "decisive (net two_pages_world) (Suc 0) = Suc 0"
  "page_continues True (net two_pages_world 0)"
  "\<not> page_continues True (net two_pages_world (Suc 0))"
  "page_users True (net two_pages_world 0) =
     [WebUser (JNum 11) (JStr ''ann'') (JStr []) (JBool False) (JBool False) (JStr []),
      WebUser (JNum 12) (JStr ''bob'') (JStr []) (JBool False) (JBool False) (JStr [])]"
  "page_users True (net two_pages_world (Suc 0)) = []"
  by (simp_all add: two_pages_world_def init_state_def decisive_def is_429_def page_continues_def
        page_users_def surfaced_def is_http_error_def dget_def)


section \<open>C2: the rate limiter and a like\<close>

lemma like_post_at_ceiling:
  "\<not> can_perform ''likes'' max_likes hour s \<Longrightarrow> like_post max_likes hour url s = (Inr False, s)"
  by (simp add: like_post_def)

lemma like_refused_resolve:
  "media_pk_from_url ''https://www.instagram.com/p/Cx1/'' like_refused_world =
     (Inr (JStr ''31''),
      like_refused_world\<lparr>trace := [Net (GraphqlGet ''b3055c01b4b222b8a47dc12b090e4e64'' ''Cx1'') None]\<rparr>)"
  by (simp add: media_pk_from_url_def shortcode_char_def shortcode_to_media_id_def io_try_def io_bind_def
        http_def r_json_def io_ret_def lift_def like_refused_world_def init_state_def)

lemma like_refused_like:
  "media_like (JStr ''31'')
     (like_refused_world\<lparr>trace := [Net (GraphqlGet ''b3055c01b4b222b8a47dc12b090e4e64'' ''Cx1'') None]\<rparr>) =
     (Inr False,
      like_refused_world\<lparr>trace := [Net (GraphqlGet ''b3055c01b4b222b8a47dc12b090e4e64'' ''Cx1'') None,
                                   Net (WebPost [Lit ''/web/likes/'', Fmt (JStr ''31''), Lit ''/like/'']) None]\<rparr>)"
  by (simp add: media_like_def web_post_def refresh_csrf_no_cookies io_try_def io_bind_def
        http_def r_json_def io_ret_def lift_def is_http_error_def like_refused_world_def init_state_def)

text \<open>
  C2 does not hold of \<^verbatim>\<open>like_post\<close>: the rate limiter is asked before any request, and
  at the ceiling the call returns \<^verbatim>\<open>False\<close> with the state as it was; but the like is
  recorded whatever \<^verbatim>\<open>media_like\<close> returned. On a platform that answers the like with
  HTTP 200 and status \<^verbatim>\<open>fail\<close>, \<^verbatim>\<open>media_like\<close> returns \<^verbatim>\<open>False\<close>, and \<^verbatim>\<open>like_post\<close> still
  records the action (the count of the window goes from 0 to 1) and returns \<^verbatim>\<open>True\<close>.
\<close>

theorem like_post_counts_refused_like:
  "media_like (JStr ''31'')
     (like_refused_world\<lparr>trace := [Net (GraphqlGet ''b3055c01b4b222b8a47dc12b090e4e64'' ''Cx1'') None]\<rparr>) =
     (Inr False,
      like_refused_world\<lparr>trace := [Net (GraphqlGet ''b3055c01b4b222b8a47dc12b090e4e64'' ''Cx1'') None,
                                   Net (WebPost [Lit ''/web/likes/'', Fmt (JStr ''31''), Lit ''/like/'']) None]\<rparr>)
   \<and> fst (like_post 30 0 ''https://www.instagram.com/p/Cx1/'' like_refused_world) = Inr True
   \<and> trace (snd (like_post 30 0 ''https://www.instagram.com/p/Cx1/'' like_refused_world)) =
       [Net (GraphqlGet ''b3055c01b4b222b8a47dc12b090e4e64'' ''Cx1'') None,
        Net (WebPost [Lit ''/web/likes/'', Fmt (JStr ''31''), Lit ''/like/'']) None,
        Recorded ''likes'', Delay 2000 5000]
   \<and> window_count ''likes'' 0 like_refused_world = 0
   \<and> window_count ''likes'' 0 (snd (like_post 30 0 ''https://www.instagram.com/p/Cx1/'' like_refused_world)) = 1
   \<and> like_post 0 0 ''https://www.instagram.com/p/Cx1/'' like_refused_world = (Inr False, like_refused_world)"
proof -
  have c: "can_perform ''likes'' 30 0 like_refused_world" "\<not> can_perform ''likes'' 0 0 like_refused_world"
    "window_count ''likes'' 0 like_refused_world = 0"
    by (simp_all add: can_perform_def window_count_def like_refused_world_def init_state_def)
  have r0: "rate like_refused_world ''likes'' = (0, 0)"
    by (simp add: like_refused_world_def init_state_def)
  have run: "like_post 30 0 ''https://www.instagram.com/p/Cx1/'' like_refused_world =
      (Inr True,
       like_refused_world\<lparr>trace := [Net (GraphqlGet ''b3055c01b4b222b8a47dc12b090e4e64'' ''Cx1'') None,
                                   Net (WebPost [Lit ''/web/likes/'', Fmt (JStr ''31''), Lit ''/like/'']) None,
                                   Recorded ''likes'', Delay 2000 5000],
                          rate := (rate like_refused_world)(''likes'' := (0, 1))\<rparr>)"
    using c(1) r0
    by (simp add: like_post_def io_try_def io_bind_def[of "media_pk_from_url _"] like_refused_resolve
          io_bind_def[of "media_like _"] like_refused_like io_bind_def[of "record_action _ _"]
          record_action_def window_count_def emit_def io_ret_def
          like_refused_world_def[symmetric])
  show ?thesis
    using c(2,3) run like_refused_like by (simp add: like_post_def window_count_def)
qed

end
